theory Spec2Isabelle
  imports Complex_Main "HOL-Library.Word" "HOL-Library.AList"
begin

section \<open>JavaScript strings and numbers\<close>

text \<open>
  A JavaScript string is a sequence of UTF-16 code units. The model uses \<open>string\<close>
  (\<open>char list\<close>), one \<open>char\<close> per code unit, and so covers the strings whose code
  units are below 256 (ASCII and Latin-1). \<open>length\<close> is \<open>String.length\<close>.
  A byte of a \<open>Uint8Array\<close> is an \<open>8 word\<close>.
\<close>

type_synonym byte = "8 word"

text \<open>\<open>String.prototype.startsWith\<close>.\<close>

fun startsWith :: "string \<Rightarrow> string \<Rightarrow> bool" where
  "startsWith s [] = True"
| "startsWith [] (p # ps) = False"
| "startsWith (c # cs) (p # ps) = (c = p \<and> startsWith cs ps)"

text \<open>\<open>String.prototype.includes\<close>: the argument occurs as a contiguous substring.\<close>

fun includes_str :: "string \<Rightarrow> string \<Rightarrow> bool" where
  "includes_str [] p = (p = [])"
| "includes_str (c # cs) p = (startsWith (c # cs) p \<or> includes_str cs p)"

text \<open>
  \<open>String.prototype.toLowerCase\<close> on code units below 256: the ASCII capitals and the
  Latin-1 capitals (U+00C0 to U+00DE without the multiplication sign U+00D7) move up by 32.
\<close>

definition toLowerCase_char :: "char \<Rightarrow> char" where
  "toLowerCase_char c =
     (let n = (of_char c :: nat)
      in if (65 \<le> n \<and> n \<le> 90) \<or> (192 \<le> n \<and> n \<le> 222 \<and> n \<noteq> 215)
         then char_of (n + 32) else c)"

definition toLowerCase :: "string \<Rightarrow> string" where
  "toLowerCase s = map toLowerCase_char s"

text \<open>
  \<open>String.prototype.split\<close> with a one-character separator: the pieces between the
  separators, the empty string giving one empty piece.
\<close>

fun split_str :: "char \<Rightarrow> string \<Rightarrow> string list" where
  "split_str sep [] = [[]]"
| "split_str sep (c # cs) =
     (if c = sep then [] # split_str sep cs
      else (case split_str sep cs of
              [] \<Rightarrow> [[c]]
            | p # ps \<Rightarrow> (c # p) # ps))"

text \<open>Reading an array element that may be absent (\<open>undefined\<close> is \<open>None\<close>).\<close>

fun nth_opt :: "'a list \<Rightarrow> nat \<Rightarrow> 'a option" where
  "nth_opt [] i = None"
| "nth_opt (x # xs) 0 = Some x"
| "nth_opt (x # xs) (Suc i) = nth_opt xs i"

text \<open>Truthiness of a string that may be \<open>undefined\<close>: present and not empty.\<close>

fun truthy :: "string option \<Rightarrow> bool" where
  "truthy None = False"
| "truthy (Some s) = (s \<noteq> [])"

text \<open>
  \<open>x || d\<close> for an optional number: \<open>undefined\<close> and \<open>0\<close> are falsy and give the
  default.
\<close>

fun or_default :: "int option \<Rightarrow> int \<Rightarrow> int" where
  "or_default None d = d"
| "or_default (Some x) d = (if x = 0 then d else x)"

subsection \<open>parseInt with radix 16\<close>

text \<open>
  \<open>parseInt(s, 16)\<close>: leading white space is skipped, then an optional sign, then an
  optional \<open>0x\<close> or \<open>0X\<close>; the longest run of hexadecimal digits that follows is the
  number, and no digit at all gives \<open>NaN\<close> (\<open>None\<close>).
\<close>

definition isWhiteSpace :: "char \<Rightarrow> bool" where
  "isWhiteSpace c = ((of_char c :: nat) \<in> {9, 10, 11, 12, 13, 32, 160})"

definition hexDigitValue :: "char \<Rightarrow> nat option" where
  "hexDigitValue c =
     (let n = (of_char c :: nat)
      in if 48 \<le> n \<and> n \<le> 57 then Some (n - 48)
         else if 97 \<le> n \<and> n \<le> 102 then Some (n - 87)
         else if 65 \<le> n \<and> n \<le> 70 then Some (n - 55)
         else None)"

definition isHexDigit :: "char \<Rightarrow> bool" where
  "isHexDigit c = (hexDigitValue c \<noteq> None)"

fun digitsValue :: "nat \<Rightarrow> string \<Rightarrow> nat" where
  "digitsValue acc [] = acc"
| "digitsValue acc (c # cs) =
     digitsValue (acc * 16 + (case hexDigitValue c of None \<Rightarrow> 0 | Some d \<Rightarrow> d)) cs"

definition parseInt16 :: "string \<Rightarrow> int option" where
  "parseInt16 s =
     (let s1 = dropWhile isWhiteSpace s;
          neg = startsWith s1 ''-'';
          s2 = (if startsWith s1 ''-'' \<or> startsWith s1 ''+'' then drop 1 s1 else s1);
          s3 = (if startsWith s2 ''0x'' \<or> startsWith s2 ''0X'' then drop 2 s2 else s2);
          ds = takeWhile isHexDigit s3
      in if ds = [] then None
         else Some ((if neg then - 1 else 1) * int (digitsValue 0 ds)))"

text \<open>
  Storing a number into a \<open>Uint8Array\<close> element (\<open>ToUint8\<close>): \<open>NaN\<close> becomes 0, an
  integer is taken modulo 256.
\<close>

fun toUint8 :: "int option \<Rightarrow> byte" where
  "toUint8 None = 0"
| "toUint8 (Some n) = word_of_int n"

subsection \<open>Number.prototype.toString(16) and padStart\<close>

definition hexDigit :: "nat \<Rightarrow> char" where
  "hexDigit d = (if d < 10 then char_of (48 + d) else char_of (87 + d))"

fun toString16 :: "nat \<Rightarrow> string" where
  "toString16 n = (if n < 16 then [hexDigit n] else toString16 (n div 16) @ [hexDigit (n mod 16)])"

definition padStart :: "nat \<Rightarrow> char \<Rightarrow> string \<Rightarrow> string" where
  "padStart n c s = replicate (n - length s) c @ s"

section \<open>Errors\<close>

text \<open>
  The code throws plain \<open>Error\<close> objects told apart by their message only. Each message of
  the source is a constructor; a message that embeds the message of a caught error carries
  that error.
\<close>

datatype error =
    InvalidHexString            \<comment> \<open>hexToUint8Array: "not a valid hexadecimal string"\<close>
  | EncryptSecretsFailed error  \<comment> \<open>encryptSecrets: "encrypting the environment variables failed: ..."\<close>
  | TypeRequired                \<comment> \<open>"The type option is required. Currently only phala is supported."\<close>
  | ModeRequired                \<comment> \<open>"The mode option is required. Currently only docker-compose is supported."\<close>
  | NameRequired                \<comment> \<open>"The name option is required."\<close>
  | ComposeRequired             \<comment> \<open>"The compose option is required."\<close>
  | IdentifierRequired          \<comment> \<open>updateCompose: the identifier is required\<close>
  | NoTeepodsFound              \<comment> \<open>deploy: no teepods found\<close>
  | NoAvailableTeepods          \<comment> \<open>deploy: no teepod is available\<close>
  | CannotQueryTeepods error    \<comment> \<open>deploy: "cannot query the available teepods: ..."\<close>
  | ListTeepodsFailed error     \<comment> \<open>listTeepods: "Failed to list teepods: ..."\<close>
  | PubkeyMissing               \<comment> \<open>"Failed to get encryption pubkey from CVM"\<close>
  | External string             \<comment> \<open>an error raised outside this code: transport, file system, cipher\<close>

section \<open>utils/crypto.ts\<close>

text \<open>
  \<open>hexToUint8Array\<close>: a leading \<open>0x\<close> is dropped, an odd length throws, and every two
  characters are given to \<open>parseInt(_, 16)\<close> and stored as one byte. The loop runs on an
  even length only.
\<close>

fun hexPairs :: "string \<Rightarrow> byte list" where
  "hexPairs (a # b # rest) = toUint8 (parseInt16 [a, b]) # hexPairs rest"
| "hexPairs _ = []"

definition hexToUint8Array :: "string \<Rightarrow> error + byte list" where
  "hexToUint8Array hex0 =
     (let hex = (if startsWith hex0 ''0x'' then drop 2 hex0 else hex0)
      in if length hex mod 2 \<noteq> 0 then Inl InvalidHexString
         else Inr (hexPairs hex))"

text \<open>\<open>uint8ArrayToHex\<close>: two lower-case hexadecimal digits for each byte.\<close>

definition uint8ArrayToHex :: "byte list \<Rightarrow> string" where
  "uint8ArrayToHex bytes = concat (map (\<lambda>b. padStart 2 (CHR ''0'') (toString16 (unat b))) bytes)"

text \<open>
  \<open>interface Env\<close>: one secret, \<open>{key, value}\<close>.
\<close>

record Env =
  env_key :: string
  env_value :: string

text \<open>
  What \<open>encryptSecrets\<close> takes from outside this repository: \<open>JSON.stringify\<close> and
  \<open>TextEncoder\<close> of the runtime, X25519 of the curves library, AES-GCM of WebCrypto, and
  the random bytes this call draws (the private key, and the byte written at each index by
  \<open>crypto.getRandomValues\<close>). A primitive that throws returns \<open>Inl\<close>.
\<close>

record crypto =
  stringify :: "Env list \<Rightarrow> string"
  encode :: "string \<Rightarrow> byte list"
  randomPrivateKey :: "byte list"
  getPublicKey :: "byte list \<Rightarrow> error + byte list"
  getSharedSecret :: "byte list \<Rightarrow> byte list \<Rightarrow> error + byte list"
  importKey :: "byte list \<Rightarrow> error + byte list"
  getRandomValues :: "nat \<Rightarrow> byte"
  aes_gcm_encrypt :: "byte list \<Rightarrow> byte list \<Rightarrow> byte list \<Rightarrow> error + byte list"

text \<open>
  The body of the \<open>try\<close> block of \<open>encryptSecrets\<close>, in the order of the source: serialise,
  draw the ephemeral key pair, decode the remote key, agree on the shared secret, import it
  as the AES key, draw a 12-byte nonce, encrypt, and hex-encode public key, nonce and
  ciphertext laid end to end.
\<close>

definition encryptSecrets_try :: "crypto \<Rightarrow> Env list \<Rightarrow> string \<Rightarrow> error + string" where
  "encryptSecrets_try c envs pubkey =
     (let envsJson = stringify c envs;
          privateKey = randomPrivateKey c
      in case getPublicKey c privateKey of
           Inl e \<Rightarrow> Inl e
         | Inr publicKey \<Rightarrow>
      (case hexToUint8Array pubkey of
           Inl e \<Rightarrow> Inl e
         | Inr remotePubkey \<Rightarrow>
      (case getSharedSecret c privateKey remotePubkey of
           Inl e \<Rightarrow> Inl e
         | Inr shared \<Rightarrow>
      (case importKey c shared of
           Inl e \<Rightarrow> Inl e
         | Inr importedShared \<Rightarrow>
      (let iv = map (getRandomValues c) [0..<12]
       in case aes_gcm_encrypt c importedShared iv (encode c envsJson) of
            Inl e \<Rightarrow> Inl e
          | Inr encrypted \<Rightarrow> Inr (uint8ArrayToHex (publicKey @ iv @ encrypted)))))))"

text \<open>The \<open>catch\<close> of \<open>encryptSecrets\<close> rethrows every error under its own message.\<close>

definition encryptSecrets :: "crypto \<Rightarrow> Env list \<Rightarrow> string \<Rightarrow> error + string" where
  "encryptSecrets c envs pubkey =
     (case encryptSecrets_try c envs pubkey of
        Inl e \<Rightarrow> Inl (EncryptSecretsFailed e)
      | Inr r \<Rightarrow> Inr r)"



section \<open>core/api-client.ts\<close>

text \<open>
  An error thrown by a request: \<open>err.response\<close> is absent when no response came (network
  failure, timeout) and carries the HTTP status otherwise.
\<close>

record request_error =
  message :: string
  response_status :: "int option"

datatype transport_event =
    Delay int     \<comment> \<open>\<open>setTimeout\<close> before a retry, in milliseconds\<close>
  | Request nat   \<comment> \<open>a call of \<open>reqFunction\<close>, numbered from 0\<close>

text \<open>
  \<open>ApiClient.executeWithRetry\<close>. \<open>reqFunction n\<close> is the outcome of the call of
  \<open>reqFunction\<close> in the iteration with \<open>retryCount = n\<close> (every iteration makes one call and
  either leaves the loop or increments \<open>retryCount\<close>). The result is the trace of delays and
  requests, and the returned data or the thrown \<open>lastError\<close>, which is \<open>undefined\<close>
  (\<open>None\<close>) if the loop never ran.
\<close>

definition shouldRetry :: "request_error \<Rightarrow> bool" where
  "shouldRetry err = (case response_status err of None \<Rightarrow> True | Some status \<Rightarrow> status \<ge> 500)"

function executeWithRetry_loop ::
  "int \<Rightarrow> (nat \<Rightarrow> request_error + 'a) \<Rightarrow> nat \<Rightarrow> request_error option
     \<Rightarrow> transport_event list \<times> (request_error option + 'a)" where
  "executeWithRetry_loop maxRetries reqFunction retryCount lastError =
     (if int retryCount \<le> maxRetries then
        (let delay = (if retryCount > 0 then [Delay (2 ^ retryCount * 1000)] else [])
         in case reqFunction retryCount of
              Inr data \<Rightarrow> (delay @ [Request retryCount], Inr data)
            | Inl err \<Rightarrow>
                if shouldRetry err \<and> int retryCount < maxRetries then
                  (case executeWithRetry_loop maxRetries reqFunction (retryCount + 1) (Some err) of
                     (evs, r) \<Rightarrow> (delay @ [Request retryCount] @ evs, r))
                else (delay @ [Request retryCount], Inl (Some err)))
      else ([], Inl lastError))"
  by pat_completeness auto
termination
  by (relation "measure (\<lambda>(maxRetries, reqFunction, retryCount, lastError).
        nat (maxRetries + 1 - int retryCount))") auto

definition executeWithRetry ::
  "int \<Rightarrow> (nat \<Rightarrow> request_error + 'a) \<Rightarrow> transport_event list \<times> (request_error option + 'a)" where
  "executeWithRetry maxRetries reqFunction = executeWithRetry_loop maxRetries reqFunction 0 None"

section \<open>core/phala-cloud.ts: parseEnv\<close>

text \<open>
  \<open>envVars\<close> is a plain object used as a dictionary. Its own string-keyed properties are
  kept in creation order, as an association list. An assignment to the key
  \<open>__proto__\<close> reaches the setter of \<open>Object.prototype\<close>, which ignores a string, so
  no property is created; every other key creates or overwrites an own property.
\<close>

type_synonym js_object = "(string \<times> string) list"

definition set_property :: "string \<Rightarrow> string \<Rightarrow> js_object \<Rightarrow> js_object" where
  "set_property k v obj = (if k = ''__proto__'' then obj else AList.update k v obj)"

text \<open>
  \<open>Object.entries\<close> lists the array-index keys first (canonical decimal numerals up to
  \<open>2^32 - 2\<close>), in ascending numeric order, then the other keys in creation order.
\<close>

definition isDecimalDigit :: "char \<Rightarrow> bool" where
  "isDecimalDigit c = (48 \<le> (of_char c :: nat) \<and> (of_char c :: nat) \<le> 57)"

definition decimalValue :: "string \<Rightarrow> int" where
  "decimalValue s = foldl (\<lambda>acc c. acc * 10 + ((of_char c :: int) - 48)) 0 s"

definition isArrayIndex :: "string \<Rightarrow> bool" where
  "isArrayIndex k =
     (k \<noteq> [] \<and> list_all isDecimalDigit k \<and> (k = ''0'' \<or> \<not> startsWith k ''0'')
      \<and> decimalValue k \<le> 4294967294)"

definition entries :: "js_object \<Rightarrow> (string \<times> string) list" where
  "entries obj =
     sort_key (\<lambda>kv. decimalValue (fst kv)) (filter (\<lambda>kv. isArrayIndex (fst kv)) obj)
     @ filter (\<lambda>kv. \<not> isArrayIndex (fst kv)) obj"

text \<open>
  The body of both loops of \<open>parseEnv\<close>: an entry with a \<open>=\<close> is split at every
  \<open>=\<close>, the first two pieces are the key and the value, and the pair is stored when both
  are non-empty.
\<close>

definition assignEnv :: "js_object \<Rightarrow> string \<Rightarrow> js_object" where
  "assignEnv envVars env =
     (if includes_str env ''='' then
        (let parts = split_str (CHR ''='') env;
             key = nth_opt parts 0;
             val = nth_opt parts 1
         in if truthy key \<and> truthy val
            then set_property (case key of Some k \<Rightarrow> k | None \<Rightarrow> [])
                              (case val of Some v \<Rightarrow> v | None \<Rightarrow> []) envVars
            else envVars)
      else envVars)"

text \<open>
  \<open>parseEnv\<close>. \<open>fileSystem path\<close> is the text of the file at \<open>path\<close>, \<open>None\<close> when
  \<open>fs.existsSync\<close> is false. The entries of the array are stored first, the lines of the
  file after them.
\<close>

definition parseEnv :: "(string \<Rightarrow> string option) \<Rightarrow> string list \<Rightarrow> string \<Rightarrow> Env list" where
  "parseEnv fileSystem envs envFile =
     (let envVars1 = foldl assignEnv [] envs;
          envVars2 =
            (if envFile \<noteq> [] then
               (case fileSystem envFile of
                  None \<Rightarrow> envVars1
                | Some envFileContent \<Rightarrow> foldl assignEnv envVars1 (split_str (CHR 0x0A) envFileContent))
             else envVars1)
      in map (\<lambda>kv. \<lparr>env_key = fst kv, env_value = snd kv\<rparr>) (entries envVars2))"

section \<open>core/phala-cloud.ts: deploy, upgrade, updateCompose\<close>

record teepod =
  teepod_id :: int
  teepod_available :: bool
  teepod_status :: string

record docker_config =
  dc_url :: string
  dc_username :: string
  dc_password :: string

record compose_manifest =
  cm_docker_compose_file :: string
  cm_docker_config :: docker_config
  cm_features :: "string list"
  cm_kms_enabled :: bool
  cm_manifest_version :: int
  cm_name :: string
  cm_public_logs :: bool
  cm_public_sysinfo :: bool
  cm_tproxy_enabled :: bool

record vm_config =
  vm_teepod_id :: int
  vm_name :: string
  vm_image :: string
  vm_vcpu :: int
  vm_memory :: int
  vm_disk_size :: int
  vm_compose_manifest :: compose_manifest
  vm_listed :: bool

record final_payload = vm_config +
  fp_encrypted_env :: string
  fp_app_env_encrypt_pubkey :: string
  fp_app_id_salt :: string

record GetPubkeyFromCvmResponse =
  app_env_encrypt_pubkey :: string
  app_id_salt :: string

record CreateCvmResponse =
  created_app_id :: string
  created_app_url :: string

text \<open>
  \<open>GetCvmByAppIdResponse\<close>. The response is not validated, so the key field may be
  missing (\<open>None\<close>) as well as empty.
\<close>

record cvm =
  cvm_id :: string
  cvm_name :: string
  cvm_app_id :: string
  cvm_app_url :: string
  cvm_encrypted_env_pubkey :: "string option"
  cvm_status :: string

record DeployOptions =
  do_type :: string
  do_mode :: string
  do_name :: string
  do_compose :: string
  do_env :: "string list option"
  do_envFile :: "string option"
  do_vcpu :: "int option"
  do_memory :: "int option"
  do_diskSize :: "int option"
  do_teepodId :: "int option"
  do_image :: "string option"

record UpgradeOptions =
  uo_name :: string
  uo_compose :: string
  uo_env :: "string list option"
  uo_envFile :: "string option"

record upgrade_manifest =
  um_docker_compose_file :: string
  um_manifest_version :: int
  um_runner :: string
  um_version :: string
  um_features :: "string list"
  um_name :: string

record upgrade_payload =
  up_compose_manifest :: upgrade_manifest
  up_allow_restart :: bool
  up_encrypted_env :: string

record registry_config =
  rc_password :: string
  rc_username :: string
  rc_registry :: "string option"

record UpdateComposeOptions =
  uc_identifier :: string
  uc_compose :: string
  uc_env :: "string list option"
  uc_envFile :: "string option"
  uc_allowRestart :: "bool option"
  uc_dockerConfig :: "registry_config option"
  uc_preLaunchScript :: "string option"
  uc_bashScript :: "string option"
  uc_features :: "string list option"
  uc_kmsEnabled :: "bool option"
  uc_tproxyEnabled :: "bool option"
  uc_publicLogs :: "bool option"
  uc_publicSysinfo :: "bool option"

record update_manifest =
  ud_docker_compose_file :: string
  ud_docker_config :: registry_config
  ud_features :: "string list"
  ud_kms_enabled :: bool
  ud_manifest_version :: int
  ud_name :: string
  ud_pre_launch_script :: string
  ud_bash_script :: string
  ud_public_logs :: bool
  ud_public_sysinfo :: bool
  ud_tproxy_enabled :: bool
  ud_runner :: string
  ud_version :: string

record update_payload =
  ud_id :: string
  ud_compose_manifest :: update_manifest
  ud_encrypted_env :: string
  ud_allow_restart :: int

text \<open>
  The collaborators of the three operations: the file system, the remote service as seen
  through \<open>ApiClient\<close> (each request gives its data or the error the transport throws in
  the end), and the primitives of \<open>encryptSecrets\<close>.
\<close>

record world =
  readFile :: "string \<Rightarrow> error + string"
  fileSystem :: "string \<Rightarrow> string option"
  get_teepods :: "error + teepod list option"
  post_pubkey :: "vm_config \<Rightarrow> error + GetPubkeyFromCvmResponse option"
  post_create :: "final_payload \<Rightarrow> error + CreateCvmResponse"
  get_cvm :: "string \<Rightarrow> error + cvm"
  post_compose :: "string \<Rightarrow> upgrade_payload \<Rightarrow> error + string"
  put_compose :: "string \<Rightarrow> update_payload \<Rightarrow> error + string"
  primitives :: crypto

text \<open>What an operation does to the outside, in order.\<close>

datatype call =
    ReadFile string
  | GetTeepods
  | PostPubkey vm_config
  | EncryptSecrets "Env list" string
  | PostCreate final_payload
  | GetCvmByAppId string
  | PostCompose string upgrade_payload
  | PutCompose string update_payload

text \<open>\<open>listTeepods\<close>: \<open>response.data || []\<close>, an error rethrown under its own message.\<close>

definition listTeepods :: "world \<Rightarrow> call list \<times> (error + teepod list)" where
  "listTeepods w =
     ([GetTeepods],
      case get_teepods w of
        Inl e \<Rightarrow> Inl (ListTeepodsFailed e)
      | Inr None \<Rightarrow> Inr []
      | Inr (Some teepods) \<Rightarrow> Inr teepods)"

text \<open>
  The block of \<open>deploy\<close> under \<open>if (!teepodId)\<close>, where \<open>teepodId\<close> is a number: it
  runs when \<open>teepodId\<close> is 0, and every error inside it, its own two included, is
  rethrown by its \<open>catch\<close>.
\<close>

definition findTeepod :: "world \<Rightarrow> int \<Rightarrow> call list \<times> (error + int)" where
  "findTeepod w teepodId =
     (if teepodId = 0 then
        (case listTeepods w of
           (cs, Inl e) \<Rightarrow> (cs, Inl (CannotQueryTeepods e))
         | (cs, Inr teepods) \<Rightarrow>
             if teepods = [] then (cs, Inl (CannotQueryTeepods NoTeepodsFound))
             else (case filter (\<lambda>t. teepod_available t \<and> teepod_status t = ''online'') teepods of
                     [] \<Rightarrow> (cs, Inl (CannotQueryTeepods NoAvailableTeepods))
                   | t # ts \<Rightarrow> (cs, Inr (teepod_id t))))
      else ([], Inr teepodId))"

text \<open>
  The rest of \<open>deploy\<close> once the teepod is known: build \<open>vm_config\<close>, request the
  encryption key for it, encrypt the secrets if there are any, and post the final payload.
\<close>

definition deploy_vm_config :: "DeployOptions \<Rightarrow> string \<Rightarrow> int \<Rightarrow> vm_config" where
  "deploy_vm_config options composeContent teepodId =
     \<lparr>vm_teepod_id = teepodId,
      vm_name = do_name options,
      vm_image = (case do_image options of None \<Rightarrow> ''dstack-dev-0.3.5''
                  | Some i \<Rightarrow> if i = [] then ''dstack-dev-0.3.5'' else i),
      vm_vcpu = or_default (do_vcpu options) 1,
      vm_memory = or_default (do_memory options) 2048,
      vm_disk_size = or_default (do_diskSize options) 40,
      vm_compose_manifest =
        \<lparr>cm_docker_compose_file = composeContent,
         cm_docker_config = \<lparr>dc_url = [], dc_username = [], dc_password = []\<rparr>,
         cm_features = [''kms'', ''tproxy-net''],
         cm_kms_enabled = True,
         cm_manifest_version = 2,
         cm_name = do_name options,
         cm_public_logs = True,
         cm_public_sysinfo = True,
         cm_tproxy_enabled = True\<rparr>,
      vm_listed = False\<rparr>"

definition deploy_submit ::
  "world \<Rightarrow> Env list \<Rightarrow> vm_config \<Rightarrow> call list \<times> (error + CreateCvmResponse)" where
  "deploy_submit w envs config =
     (case post_pubkey w config of
        Inl e \<Rightarrow> ([PostPubkey config], Inl e)
      | Inr None \<Rightarrow> ([PostPubkey config], Inl PubkeyMissing)
      | Inr (Some pubkeyResponse) \<Rightarrow>
          if app_env_encrypt_pubkey pubkeyResponse = [] then ([PostPubkey config], Inl PubkeyMissing)
          else
            (let pubkey = app_env_encrypt_pubkey pubkeyResponse;
                 salt = app_id_salt pubkeyResponse
             in if envs \<noteq> [] then
                  (case encryptSecrets (primitives w) envs pubkey of
                     Inl e \<Rightarrow> ([PostPubkey config, EncryptSecrets envs pubkey], Inl e)
                   | Inr encrypted_env \<Rightarrow>
                       (let payload = vm_config.extend config
                              \<lparr>fp_encrypted_env = encrypted_env,
                               fp_app_env_encrypt_pubkey = pubkey,
                               fp_app_id_salt = salt\<rparr>
                        in ([PostPubkey config, EncryptSecrets envs pubkey, PostCreate payload],
                            post_create w payload)))
                else
                  (let payload = vm_config.extend config
                         \<lparr>fp_encrypted_env = [],
                          fp_app_env_encrypt_pubkey = pubkey,
                          fp_app_id_salt = salt\<rparr>
                   in ([PostPubkey config, PostCreate payload], post_create w payload))))"

definition deploy :: "world \<Rightarrow> DeployOptions \<Rightarrow> call list \<times> (error + CreateCvmResponse)" where
  "deploy w options =
     (if do_type options \<noteq> ''phala'' then ([], Inl TypeRequired)
      else if do_mode options \<noteq> ''docker-compose'' then ([], Inl ModeRequired)
      else if do_name options = [] then ([], Inl NameRequired)
      else if do_compose options = [] then ([], Inl ComposeRequired)
      else
        (let envs = parseEnv (fileSystem w)
                      (case do_env options of None \<Rightarrow> [] | Some e \<Rightarrow> e)
                      (case do_envFile options of None \<Rightarrow> [] | Some f \<Rightarrow> f)
         in case readFile w (do_compose options) of
              Inl e \<Rightarrow> ([ReadFile (do_compose options)], Inl e)
            | Inr composeContent \<Rightarrow>
                (case findTeepod w (or_default (do_teepodId options) 3) of
                   (cs, Inl e) \<Rightarrow> (ReadFile (do_compose options) # cs, Inl e)
                 | (cs, Inr teepodId) \<Rightarrow>
                     (case deploy_submit w envs (deploy_vm_config options composeContent teepodId) of
                        (cs2, r) \<Rightarrow> (ReadFile (do_compose options) # cs @ cs2, r)))))"

text \<open>
  \<open>upgrade\<close>: the secrets are encrypted under the key already bound to the deployment,
  when there are secrets and the fetched record has a non-empty key.
\<close>

definition upgrade :: "world \<Rightarrow> UpgradeOptions \<Rightarrow> call list \<times> (error + string)" where
  "upgrade w options =
     (if uo_name options = [] then ([], Inl NameRequired)
      else if uo_compose options = [] then ([], Inl ComposeRequired)
      else
        (let envs = parseEnv (fileSystem w)
                      (case uo_env options of None \<Rightarrow> [] | Some e \<Rightarrow> e)
                      (case uo_envFile options of None \<Rightarrow> [] | Some f \<Rightarrow> f);
             path = ''/api/v1/cvms/app_'' @ uo_name options @ ''/compose''
         in case readFile w (uo_compose options) of
              Inl e \<Rightarrow> ([ReadFile (uo_compose options)], Inl e)
            | Inr composeContent \<Rightarrow>
         (case get_cvm w (uo_name options) of
              Inl e \<Rightarrow> ([ReadFile (uo_compose options), GetCvmByAppId (uo_name options)], Inl e)
            | Inr cvm \<Rightarrow>
         (let manifest =
                \<lparr>um_docker_compose_file = composeContent,
                 um_manifest_version = 1,
                 um_runner = ''docker-compose'',
                 um_version = ''1.0.0'',
                 um_features = [''kms'', ''tproxy-net''],
                 um_name = ''app_'' @ uo_name options\<rparr>
          in if envs \<noteq> [] \<and> truthy (cvm_encrypted_env_pubkey cvm) then
               (let pubkey = (case cvm_encrypted_env_pubkey cvm of Some k \<Rightarrow> k | None \<Rightarrow> [])
                in case encryptSecrets (primitives w) envs pubkey of
                     Inl e \<Rightarrow>
                       ([ReadFile (uo_compose options), GetCvmByAppId (uo_name options),
                         EncryptSecrets envs pubkey], Inl e)
                   | Inr encrypted_env \<Rightarrow>
                       (let payload = \<lparr>up_compose_manifest = manifest, up_allow_restart = True,
                                       up_encrypted_env = encrypted_env\<rparr>
                        in ([ReadFile (uo_compose options), GetCvmByAppId (uo_name options),
                             EncryptSecrets envs pubkey, PostCompose path payload],
                            post_compose w path payload)))
             else
               (let payload = \<lparr>up_compose_manifest = manifest, up_allow_restart = True,
                               up_encrypted_env = []\<rparr>
                in ([ReadFile (uo_compose options), GetCvmByAppId (uo_name options),
                     PostCompose path payload],
                    post_compose w path payload))))))"

text \<open>\<open>String.prototype.replace\<close> with a string pattern: the first occurrence only.\<close>

fun replace_str :: "string \<Rightarrow> string \<Rightarrow> string \<Rightarrow> string" where
  "replace_str [] pat rep = (if pat = [] then rep else [])"
| "replace_str (c # cs) pat rep =
     (if startsWith (c # cs) pat then rep @ drop (length pat) (c # cs)
      else c # replace_str cs pat rep)"

text \<open>\<open>b !== undefined ? b : true\<close>.\<close>

fun or_true :: "bool option \<Rightarrow> bool" where
  "or_true None = True"
| "or_true (Some b) = b"

text \<open>\<open>s || ""\<close>.\<close>

fun or_empty :: "string option \<Rightarrow> string" where
  "or_empty None = []"
| "or_empty (Some s) = s"

definition update_manifest_of :: "UpdateComposeOptions \<Rightarrow> string \<Rightarrow> string \<Rightarrow> update_manifest" where
  "update_manifest_of options composeContent identifier =
     \<lparr>ud_docker_compose_file = composeContent,
      ud_docker_config = (case uc_dockerConfig options of
                            None \<Rightarrow> \<lparr>rc_password = [], rc_username = [], rc_registry = Some []\<rparr>
                          | Some d \<Rightarrow> d),
      ud_features = (case uc_features options of None \<Rightarrow> [''kms'', ''tproxy-net''] | Some f \<Rightarrow> f),
      ud_kms_enabled = or_true (uc_kmsEnabled options),
      ud_manifest_version = 1,
      ud_name = identifier,
      ud_pre_launch_script = or_empty (uc_preLaunchScript options),
      ud_bash_script = or_empty (uc_bashScript options),
      ud_public_logs = or_true (uc_publicLogs options),
      ud_public_sysinfo = or_true (uc_publicSysinfo options),
      ud_tproxy_enabled = or_true (uc_tproxyEnabled options),
      ud_runner = ''docker-compose'',
      ud_version = ''1.0.0''\<rparr>"

text \<open>
  \<open>updateCompose\<close>: as \<open>upgrade\<close>, with the identifier normalised to start with
  \<open>app_\<close>, the record fetched under the identifier without its first \<open>app_\<close>, and a
  \<open>PUT\<close> request.
\<close>

definition updateCompose :: "world \<Rightarrow> UpdateComposeOptions \<Rightarrow> call list \<times> (error + string)" where
  "updateCompose w options =
     (if uc_identifier options = [] then ([], Inl IdentifierRequired)
      else if uc_compose options = [] then ([], Inl ComposeRequired)
      else
        (let envs = parseEnv (fileSystem w)
                      (case uc_env options of None \<Rightarrow> [] | Some e \<Rightarrow> e)
                      (case uc_envFile options of None \<Rightarrow> [] | Some f \<Rightarrow> f);
             identifier = (if startsWith (uc_identifier options) ''app_'' then uc_identifier options
                           else ''app_'' @ uc_identifier options);
             appId = replace_str (uc_identifier options) ''app_'' [];
             path = ''/api/v1/cvms/'' @ identifier @ ''/compose'';
             allow_restart = (case uc_allowRestart options of None \<Rightarrow> 1
                              | Some a \<Rightarrow> if a then 1 else 0)
         in case readFile w (uc_compose options) of
              Inl e \<Rightarrow> ([ReadFile (uc_compose options)], Inl e)
            | Inr composeContent \<Rightarrow>
         (case get_cvm w appId of
              Inl e \<Rightarrow> ([ReadFile (uc_compose options), GetCvmByAppId appId], Inl e)
            | Inr cvm \<Rightarrow>
         (let manifest = update_manifest_of options composeContent identifier
          in if envs \<noteq> [] \<and> truthy (cvm_encrypted_env_pubkey cvm) then
               (let pubkey = (case cvm_encrypted_env_pubkey cvm of Some k \<Rightarrow> k | None \<Rightarrow> [])
                in case encryptSecrets (primitives w) envs pubkey of
                     Inl e \<Rightarrow>
                       ([ReadFile (uc_compose options), GetCvmByAppId appId,
                         EncryptSecrets envs pubkey], Inl e)
                   | Inr encrypted_env \<Rightarrow>
                       (let payload = \<lparr>ud_id = identifier, ud_compose_manifest = manifest,
                                       ud_encrypted_env = encrypted_env,
                                       ud_allow_restart = allow_restart\<rparr>
                        in ([ReadFile (uc_compose options), GetCvmByAppId appId,
                             EncryptSecrets envs pubkey, PutCompose path payload],
                            put_compose w path payload)))
             else
               (let payload = \<lparr>ud_id = identifier, ud_compose_manifest = manifest,
                               ud_encrypted_env = [], ud_allow_restart = allow_restart\<rparr>
                in ([ReadFile (uc_compose options), GetCvmByAppId appId, PutCompose path payload],
                    put_compose w path payload))))))"

section \<open>core/phala-cloud.ts: monitorDeploymentStatus\<close>

text \<open>
  The options of \<open>monitorDeploymentStatus\<close>: three optional numbers with the defaults of
  the source, and for each callback whether the caller supplied it. A callback is a sink:
  it returns and does not throw. Times are JavaScript numbers in milliseconds, modelled as
  rationals, which is exact for the whole and half milliseconds that occur; the attempt
  bound is a whole number.
\<close>

record monitor_options =
  mo_interval :: "rat option"
  mo_maxRetries :: "int option"
  mo_queryTimeout :: "rat option"
  onStatusChange :: bool
  onSuccess :: bool
  onFailure :: bool
  onTimeout :: bool
  onError :: bool

definition interval :: "monitor_options \<Rightarrow> rat" where
  "interval options = (case mo_interval options of None \<Rightarrow> 5000 | Some i \<Rightarrow> i)"

definition maxRetries :: "monitor_options \<Rightarrow> int" where
  "maxRetries options = (case mo_maxRetries options of None \<Rightarrow> 36 | Some m \<Rightarrow> m)"

definition queryTimeout :: "monitor_options \<Rightarrow> rat" where
  "queryTimeout options = (case mo_queryTimeout options of None \<Rightarrow> 8000 | Some t \<Rightarrow> t)"

definition maxConsecutiveErrors :: int where
  "maxConsecutiveErrors = 3"

text \<open>
  What the loop meets: the outcome of the status query made in the iteration with
  \<open>retryCount = n\<close> (one query per iteration), the outcome of the network query (the
  \<open>app\<close> fields of \<open>public_urls\<close>, empty when there is none), and what
  \<open>Date.now() - startTime\<close> gives at the end of iteration \<open>n\<close>.
\<close>

record monitor_world =
  getCvmByAppId :: "nat \<Rightarrow> error + cvm"
  getCvmNetwork :: "error + string list"
  elapsedTime :: "nat \<Rightarrow> rat"

datatype monitor_event =
    StatusQuery nat rat            \<comment> \<open>\<open>getCvmByAppId(appId, queryTimeout)\<close> in iteration \<open>n\<close>\<close>
  | NetworkQuery                   \<comment> \<open>\<open>getCvmNetwork(appId)\<close>\<close>
  | OnStatusChange string cvm
  | OnSuccess cvm
  | OnFailure string cvm
  | OnTimeout "cvm option"
  | OnError error
  | RecoveryPause rat              \<comment> \<open>the \<open>setTimeout\<close> inside the \<open>catch\<close>\<close>
  | WaitNextCheck rat              \<comment> \<open>the \<open>setTimeout\<close> at the end of the loop body\<close>

record monitor_state =
  deploymentSuccessful :: bool
  lastStatus :: string
  finalCvm :: "cvm option"
  consecutiveErrors :: int

datatype flow = Break | Next bool  \<comment> \<open>\<open>Next thisLoopHadError\<close>: the body goes on after the \<open>try\<close>\<close>

text \<open>
  The inner \<open>try\<close> of the success branch: the first public URL, when the network query
  gives one, is written into the snapshot; a failed query leaves the snapshot as it is.
\<close>

definition withNetworkInfo :: "monitor_world \<Rightarrow> cvm \<Rightarrow> cvm" where
  "withNetworkInfo w cvm =
     (case getCvmNetwork w of
        Inr (url # urls) \<Rightarrow> cvm\<lparr>cvm_app_url := url\<rparr>
      | Inr [] \<Rightarrow> cvm
      | Inl e \<Rightarrow> cvm)"

text \<open>The \<open>try\<close> statement of the loop body, with its \<open>catch\<close>.\<close>

definition monitor_try ::
  "monitor_options \<Rightarrow> monitor_world \<Rightarrow> nat \<Rightarrow> monitor_state
     \<Rightarrow> monitor_event list \<times> monitor_state \<times> flow" where
  "monitor_try options w retryCount st =
     (case getCvmByAppId w retryCount of
        Inr cvm \<Rightarrow>
          (let st1 = st\<lparr>finalCvm := Some cvm, consecutiveErrors := 0\<rparr>;
               changed = (lastStatus st \<noteq> cvm_status cvm);
               st2 = (if changed then st1\<lparr>lastStatus := cvm_status cvm\<rparr> else st1);
               evs = StatusQuery retryCount (queryTimeout options)
                     # (if changed \<and> onStatusChange options
                        then [OnStatusChange (cvm_status cvm) cvm] else [])
           in if toLowerCase (cvm_status cvm) = ''running'' then
                (let final = withNetworkInfo w cvm
                 in (evs @ [NetworkQuery] @ (if onSuccess options then [OnSuccess final] else []),
                     st2\<lparr>deploymentSuccessful := True, finalCvm := Some final\<rparr>, Break))
              else if includes_str (toLowerCase (cvm_status cvm)) ''error''
                      \<or> includes_str (toLowerCase (cvm_status cvm)) ''fail'' then
                (evs @ (if onFailure options then [OnFailure (cvm_status cvm) cvm] else []),
                 st2, Break)
              else (evs, st2, Next False))
      | Inl e \<Rightarrow>
          (let errors = consecutiveErrors st + 1;
               evs = StatusQuery retryCount (queryTimeout options)
                     # (if onError options then [OnError e] else [])
           in if errors \<ge> maxConsecutiveErrors then
                (evs @ [RecoveryPause (interval options * 2)],
                 st\<lparr>consecutiveErrors := max 0 (errors - 1)\<rparr>, Next True)
              else (evs, st\<lparr>consecutiveErrors := errors\<rparr>, Next True)))"

text \<open>The rest of the loop body: the wait computed after \<open>retryCount++\<close>.\<close>

definition remainingWaitTime :: "monitor_options \<Rightarrow> monitor_world \<Rightarrow> nat \<Rightarrow> bool \<Rightarrow> rat" where
  "remainingWaitTime options w n thisLoopHadError =
     (let waitMultiplier = (if thisLoopHadError then 1 / 2 else 1);
          targetWaitTime = interval options * waitMultiplier
      in max 0 (targetWaitTime - elapsedTime w n))"

function monitor_loop ::
  "monitor_options \<Rightarrow> monitor_world \<Rightarrow> nat \<Rightarrow> monitor_state
     \<Rightarrow> monitor_event list \<times> nat \<times> monitor_state" where
  "monitor_loop options w retryCount st =
     (if int retryCount < maxRetries options \<and> \<not> deploymentSuccessful st then
        (case monitor_try options w retryCount st of
           (evs, st1, Break) \<Rightarrow> (evs, retryCount, st1)
         | (evs, st1, Next thisLoopHadError) \<Rightarrow>
             (let wait = (if int (retryCount + 1) < maxRetries options \<and> \<not> deploymentSuccessful st1
                          then [WaitNextCheck (remainingWaitTime options w retryCount thisLoopHadError)]
                          else [])
              in case monitor_loop options w (retryCount + 1) st1 of
                   (evs2, r) \<Rightarrow> (evs @ wait @ evs2, r)))
      else ([], retryCount, st))"
  by pat_completeness auto
termination
  by (relation "measure (\<lambda>(options, w, retryCount, st). nat (maxRetries options - int retryCount))")
     auto

definition monitorDeploymentStatus ::
  "monitor_options \<Rightarrow> monitor_world \<Rightarrow> monitor_event list \<times> cvm option" where
  "monitorDeploymentStatus options w =
     (case monitor_loop options w 0
             \<lparr>deploymentSuccessful = False, lastStatus = [], finalCvm = None, consecutiveErrors = 0\<rparr> of
        (evs, retryCount, st) \<Rightarrow>
          (evs @ (if int retryCount \<ge> maxRetries options \<and> \<not> deploymentSuccessful st
                     \<and> onTimeout options
                  then [OnTimeout (finalCvm st)] else []),
           finalCvm st))"

section \<open>Observers and scenarios\<close>

text \<open>The delays and the request numbers of a transport trace, in order.\<close>

fun delays :: "transport_event list \<Rightarrow> int list" where
  "delays [] = []"
| "delays (Delay d # evs) = d # delays evs"
| "delays (Request n # evs) = delays evs"

fun requests :: "transport_event list \<Rightarrow> nat list" where
  "requests [] = []"
| "requests (Delay d # evs) = requests evs"
| "requests (Request n # evs) = n # requests evs"

text \<open>A request that fails with the same HTTP status at every attempt.\<close>

definition always_status :: "int \<Rightarrow> nat \<Rightarrow> request_error + string" where
  "always_status status n = Inl \<lparr>message = ''Request failed'', response_status = Some status\<rparr>"


text \<open>A request that fails with the listed statuses, one for each attempt, and then succeeds.\<close>

definition scripted_status :: "int list \<Rightarrow> nat \<Rightarrow> request_error + string" where
  "scripted_status statuses n =
     (if n < length statuses
      then Inl \<lparr>message = ''Request failed'', response_status = Some (statuses ! n)\<rparr>
      else Inr ''ok'')"

text \<open>The events of a monitor trace, by kind.\<close>

fun isStatusQuery :: "monitor_event \<Rightarrow> bool" where
  "isStatusQuery (StatusQuery n t) = True"
| "isStatusQuery ev = False"



fun isOnError :: "monitor_event \<Rightarrow> bool" where
  "isOnError (OnError e) = True"
| "isOnError ev = False"

fun isOnTimeout :: "monitor_event \<Rightarrow> bool" where
  "isOnTimeout (OnTimeout c) = True"
| "isOnTimeout ev = False"

fun isRecoveryPause :: "monitor_event \<Rightarrow> bool" where
  "isRecoveryPause (RecoveryPause t) = True"
| "isRecoveryPause ev = False"

text \<open>
  Scripted scenarios: a snapshot with a given status, a status query that answers from a
  script and fails with a transport error once the script is used up, and options with
  every callback supplied and a given attempt bound.
\<close>

definition snapshot :: "string \<Rightarrow> cvm" where
  "snapshot s =
     \<lparr>cvm_id = ''cvm-1'', cvm_name = ''demo'', cvm_app_id = ''0123abcd'', cvm_app_url = [],
      cvm_encrypted_env_pubkey = None, cvm_status = s\<rparr>"

definition scripted_query :: "string list \<Rightarrow> nat \<Rightarrow> error + cvm" where
  "scripted_query script n =
     (if n < length script then Inr (snapshot (script ! n)) else Inl (External ''ECONNRESET''))"

definition scripted_world :: "string list \<Rightarrow> monitor_world" where
  "scripted_world script =
     \<lparr>getCvmByAppId = scripted_query script,
      getCvmNetwork = Inl (External ''ECONNRESET''),
      elapsedTime = (\<lambda>n. 1200)\<rparr>"

definition all_callbacks :: "int option \<Rightarrow> monitor_options" where
  "all_callbacks attempts =
     \<lparr>mo_interval = None, mo_maxRetries = attempts, mo_queryTimeout = None,
      onStatusChange = True, onSuccess = True, onFailure = True, onTimeout = True,
      onError = True\<rparr>"

text \<open>
  The consecutive-error count in the words of claim C7, for a run in which \<open>failed i\<close>
  tells whether the status query of iteration \<open>i\<close> fails: it is 0 before the first
  iteration; a failed query increments it, and when the incremented count reaches 3 it
  goes down by one; a successful query resets it to zero. \<open>error_count failed n\<close> is
  the count before iteration \<open>n\<close>, and the threshold is reached in iteration \<open>n\<close>
  when the query fails and the incremented count is 3 or more.
\<close>

fun error_count :: "(nat \<Rightarrow> bool) \<Rightarrow> nat \<Rightarrow> int" where
  "error_count failed 0 = 0"
| "error_count failed (Suc n) =
     (if failed n
      then (if 3 \<le> error_count failed n + 1 then error_count failed n + 1 - 1
            else error_count failed n + 1)
      else 0)"

definition reaches_threshold :: "(nat \<Rightarrow> bool) \<Rightarrow> nat \<Rightarrow> bool" where
  "reaches_threshold failed n = (failed n \<and> 3 \<le> error_count failed n + 1)"

text \<open>
  What a run meets at iteration \<open>n\<close>: whether the status query fails, and whether it
  answers with a status that ends the run (\<open>running\<close>, or one that contains
  \<open>error\<close> or \<open>fail\<close>, in any letter case).
\<close>

definition query_failed :: "monitor_world \<Rightarrow> nat \<Rightarrow> bool" where
  "query_failed w n = isl (getCvmByAppId w n)"

definition terminal_status :: "monitor_world \<Rightarrow> nat \<Rightarrow> bool" where
  "terminal_status w n =
     (case getCvmByAppId w n of
        Inl e \<Rightarrow> False
      | Inr c \<Rightarrow> toLowerCase (cvm_status c) = ''running''
                 \<or> includes_str (toLowerCase (cvm_status c)) ''error''
                 \<or> includes_str (toLowerCase (cvm_status c)) ''fail'')"

text \<open>The status queries and the recovery pauses of a monitor trace.\<close>

fun isQueryOrPause :: "monitor_event \<Rightarrow> bool" where
  "isQueryOrPause (StatusQuery n t) = True"
| "isQueryOrPause (RecoveryPause t) = True"
| "isQueryOrPause ev = False"

text \<open>
  A run has \<open>K\<close> iterations when every iteration before \<open>K\<close> is within the attempt
  bound, none but the last of them meets an ending status, and either the bound is
  reached at \<open>K\<close> or the last of them meets an ending status.
\<close>

definition run_length :: "monitor_options \<Rightarrow> monitor_world \<Rightarrow> nat \<Rightarrow> bool" where
  "run_length options w K =
     ((\<forall>i<K. int i < maxRetries options \<and> (Suc i < K \<longrightarrow> \<not> terminal_status w i))
      \<and> (maxRetries options \<le> int K \<or> (0 < K \<and> terminal_status w (K - 1))))"

text \<open>A loop state after two consecutive query errors.\<close>

definition two_errors :: monitor_state where
  "two_errors = \<lparr>deploymentSuccessful = False, lastStatus = [], finalCvm = None,
                  consecutiveErrors = 2\<rparr>"


text \<open>
  A toy instance of the external primitives, for evaluating the operations on concrete
  inputs. It has the lengths and the algebraic laws of X25519 and AES-GCM that the theorems
  below assume (a 32-byte public key, key agreement, a 16-byte tag, decryption inverting
  encryption) and no security: the public key is the private key, the shared secret is the
  bytewise sum, and the ciphertext is the plaintext shifted by the first key byte.
\<close>

definition toy_stringify :: "Env list \<Rightarrow> string" where
  "toy_stringify envs = concat (map (\<lambda>e. env_key e @ ''='' @ env_value e @ '';'') envs)"


definition toy_crypto :: crypto where
  "toy_crypto =
     \<lparr>stringify = toy_stringify,
      encode = map of_char,
      randomPrivateKey = replicate 32 1,
      getPublicKey = (\<lambda>k. Inr k),
      getSharedSecret = (\<lambda>k p. Inr (map (\<lambda>xy. fst xy + snd xy) (zip k p))),
      importKey = (\<lambda>k. Inr k),
      getRandomValues = (\<lambda>i. 7),
      aes_gcm_encrypt = (\<lambda>k iv p. Inr (map (\<lambda>b. b + hd k) p @ replicate 16 0))\<rparr>"


text \<open>
  A remote service for concrete runs: the compose file is readable, there is no env file,
  the only teepod is offline and unavailable, a key is issued for every configuration, the
  fetched deployment record has no bound key, and every submission is accepted.
\<close>

definition demo_world :: world where
  "demo_world =
     \<lparr>readFile = (\<lambda>path. Inr ''services: {}''),
      fileSystem = (\<lambda>path. None),
      get_teepods = Inr (Some [\<lparr>teepod_id = 7, teepod_available = False, teepod_status = ''offline''\<rparr>]),
      post_pubkey = (\<lambda>config. Inr (Some \<lparr>app_env_encrypt_pubkey = ''0x'' @ concat (replicate 32 ''02''),
                                             app_id_salt = ''salt''\<rparr>)),
      post_create = (\<lambda>payload. Inr \<lparr>created_app_id = ''0123abcd'', created_app_url = ''/dashboard''\<rparr>),
      get_cvm = (\<lambda>appId. Inr (snapshot ''running'')),
      post_compose = (\<lambda>path payload. Inr ''accepted''),
      put_compose = (\<lambda>path payload. Inr ''accepted''),
      primitives = toy_crypto\<rparr>"

definition demo_deploy :: DeployOptions where
  "demo_deploy =
     \<lparr>do_type = ''phala'', do_mode = ''docker-compose'', do_name = ''demo'',
      do_compose = ''docker-compose.yml'', do_env = None, do_envFile = None, do_vcpu = None,
      do_memory = None, do_diskSize = None, do_teepodId = None, do_image = None\<rparr>"

definition demo_upgrade :: UpgradeOptions where
  "demo_upgrade =
     \<lparr>uo_name = ''0123abcd'', uo_compose = ''docker-compose.yml'',
      uo_env = Some [''API_KEY=secret''], uo_envFile = None\<rparr>"

definition demo_update :: UpdateComposeOptions where
  "demo_update =
     \<lparr>uc_identifier = ''app_0123abcd'', uc_compose = ''docker-compose.yml'',
      uc_env = Some [''API_KEY=secret''], uc_envFile = None, uc_allowRestart = None,
      uc_dockerConfig = None, uc_preLaunchScript = None, uc_bashScript = None,
      uc_features = None, uc_kmsEnabled = None, uc_tproxyEnabled = None, uc_publicLogs = None,
      uc_publicSysinfo = None\<rparr>"

text \<open>
  The reading of one entry in the words of claim C9: an entry without \<open>=\<close> binds
  nothing; otherwise the key is the text before the first \<open>=\<close>, the value is the
  text between the first and the second \<open>=\<close> (to the end when there is no second
  one), and the entry binds the key to the value when both are non-empty.
\<close>

definition entry_binding :: "string \<Rightarrow> (string \<times> string) option" where
  "entry_binding s =
     (if CHR ''='' \<in> set s then
        (let k = takeWhile (\<lambda>c. c \<noteq> CHR ''='') s;
             v = takeWhile (\<lambda>c. c \<noteq> CHR ''='') (drop 1 (dropWhile (\<lambda>c. c \<noteq> CHR ''='') s))
         in if k \<noteq> [] \<and> v \<noteq> [] then Some (k, v) else None)
      else None)"

text \<open>The lines of the env file that \<open>parseEnv\<close> reads, none when there is no file.\<close>

definition file_lines :: "(string \<Rightarrow> string option) \<Rightarrow> string \<Rightarrow> string list" where
  "file_lines fs envFile =
     (if envFile = [] then []
      else (case fs envFile of None \<Rightarrow> [] | Some content \<Rightarrow> split_str (CHR 0x0A) content))"

text \<open>The value a list of secrets gives to a key.\<close>

definition lookupEnv :: "Env list \<Rightarrow> string \<Rightarrow> string option" where
  "lookupEnv envs k = map_of (map (\<lambda>e. (env_key e, env_value e)) envs) k"

text \<open>A file system without files.\<close>

definition noFiles :: "string \<Rightarrow> string option" where
  "noFiles path = None"

text \<open>A file system whose only file is \<open>.env\<close>, with the lines \<open>A=file\<close> and \<open>B=2=3\<close>.\<close>

definition demo_files :: "string \<Rightarrow> string option" where
  "demo_files path = (if path = ''.env'' then Some (''A=file'' @ [CHR 0x0A] @ ''B=2=3'') else None)"
section \<open>The retrying transport\<close>

declare executeWithRetry_loop.simps [simp del]

lemma loop_no_retry:
  assumes "int k \<le> m" "req k = Inl err" "\<not> shouldRetry err"
  shows "executeWithRetry_loop m req k le
         = ((if k > 0 then [Delay (2 ^ k * 1000)] else []) @ [Request k], Inl (Some err))"
  using assms by (subst executeWithRetry_loop.simps) simp

lemma loop_success:
  assumes "int k \<le> m" "req k = Inr d"
  shows "executeWithRetry_loop m req k le
         = ((if k > 0 then [Delay (2 ^ k * 1000)] else []) @ [Request k], Inr d)"
  using assms by (subst executeWithRetry_loop.simps) simp

lemma loop_all_fail:
  assumes "int k \<le> m" "\<forall>n. k \<le> n \<and> int n \<le> m \<longrightarrow> (\<exists>e. req n = Inl e \<and> shouldRetry e)"
  shows "\<exists>e. req (nat m) = Inl e \<and> executeWithRetry_loop m req k le
         = ((if k > 0 then [Delay (2 ^ k * 1000)] else []) @ Request k
              # concat (map (\<lambda>j. [Delay (2 ^ j * 1000), Request j]) [Suc k..<Suc (nat m)]),
            Inl (Some e))"
  using assms
proof (induction "nat m - k" arbitrary: k le)
  case 0
  then have km: "k = nat m" by simp
  from 0 obtain e where e: "req k = Inl e" by (metis order_refl)
  have "\<not> int k < m" using km by simp
  with 0 e km show ?case
    by (subst executeWithRetry_loop.simps) (auto simp: Let_def)
next
  case (Suc d)
  then have lt: "int k < m" by linarith
  from Suc obtain e where e: "req k = Inl e" "shouldRetry e" by (metis order_refl)
  have d: "d = nat m - Suc k" using Suc by linarith
  have le': "int (Suc k) \<le> m" using lt by simp
  have all: "\<forall>n. Suc k \<le> n \<and> int n \<le> m \<longrightarrow> (\<exists>e. req n = Inl e \<and> shouldRetry e)"
    using Suc.prems by auto
  from Suc.hyps(1)[OF d le' all, of "Some e"] obtain e' where
    e': "req (nat m) = Inl e'"
    "executeWithRetry_loop m req (Suc k) (Some e)
       = ([Delay (2 ^ Suc k * 1000)] @ Request (Suc k)
            # concat (map (\<lambda>j. [Delay (2 ^ j * 1000), Request j]) [Suc (Suc k)..<Suc (nat m)]),
          Inl (Some e'))" by auto
  have up: "[Suc k..<Suc (nat m)] = Suc k # [Suc (Suc k)..<Suc (nat m)]"
  proof -
    have "Suc k < Suc (nat m)" using lt by linarith
    then show ?thesis by (rule upt_conv_Cons)
  qed
  have step: "executeWithRetry_loop m req k le
      = (case executeWithRetry_loop m req (Suc k) (Some e) of
           (evs, r) \<Rightarrow> ((if k > 0 then [Delay (2 ^ k * 1000)] else []) @ [Request k] @ evs, r))"
    using e lt Suc.prems(1) by (subst executeWithRetry_loop.simps) simp
  show ?case unfolding step e'(2) up using e'(1) by (simp del: upt_Suc)
qed


lemma delays_attempts:
  "delays (concat (map (\<lambda>j. [Delay (2 ^ j * 1000), Request j]) js)) = map (\<lambda>j. 2 ^ j * 1000) js"
  by (induction js) simp_all

lemma requests_attempts:
  "requests (concat (map (\<lambda>j. [Delay (2 ^ j * 1000), Request j]) js)) = js"
  by (induction js) simp_all

lemma doubling_increasing: "sorted_wrt (<) (map (\<lambda>j. (2::int) ^ j * 1000) [a..<b])"
  by (simp add: sorted_wrt_map sorted_wrt_upt[simplified] sorted_wrt_iff_nth_less)

lemma loop_last_error:
  "int k \<le> m \<Longrightarrow> executeWithRetry_loop m req k le = (evs, Inl x)
     \<Longrightarrow> \<exists>n e. evs \<noteq> [] \<and> last evs = Request n \<and> req n = Inl e \<and> x = Some e"
proof (induction m req k le arbitrary: evs x rule: executeWithRetry_loop.induct)
  case (1 m req k le)
  show ?case
  proof (cases "req k")
    case (Inr d)
    with 1 show ?thesis by (subst (asm) (2) executeWithRetry_loop.simps) simp
  next
    case (Inl err)
    show ?thesis
    proof (cases "shouldRetry err \<and> int k < m")
      case False
      with 1 Inl show ?thesis
        by (subst (asm) (2) executeWithRetry_loop.simps) (auto simp: Let_def)
    next
      case True
      obtain evs' r where r: "executeWithRetry_loop m req (k + 1) (Some err) = (evs', r)"
        by (cases "executeWithRetry_loop m req (k + 1) (Some err)")
      from 1(3) Inl True r 1(2) have "r = Inl x" and evs: "evs = (if k > 0 then [Delay (2 ^ k * 1000)] else []) @ [Request k] @ evs'"
        by (subst (asm) executeWithRetry_loop.simps; simp)+
      have "int (k + 1) \<le> m" using True by simp
      from 1(1)[OF 1(2) refl Inl _ this, of evs' x] True r \<open>r = Inl x\<close>
      obtain n e where "evs' \<noteq> []" "last evs' = Request n" "req n = Inl e" "x = Some e" by auto
      then show ?thesis using evs by auto
    qed
  qed
qed

lemma loop_until:
  assumes "int j \<le> m" "k \<le> j"
    and "\<forall>i. k \<le> i \<and> i < j \<longrightarrow> (\<exists>e. req i = Inl e \<and> shouldRetry e)"
    and "int j = m \<or> (\<exists>d. req j = Inr d) \<or> (\<exists>e. req j = Inl e \<and> \<not> shouldRetry e)"
  shows "executeWithRetry_loop m req k le
         = ((if k > 0 then [Delay (2 ^ k * 1000)] else []) @ Request k
              # concat (map (\<lambda>i. [Delay (2 ^ i * 1000), Request i]) [Suc k..<Suc j]),
            case req j of Inr d \<Rightarrow> Inr d | Inl e \<Rightarrow> Inl (Some e))"
  using assms(2,3)
proof (induction "j - k" arbitrary: k le)
  case 0
  then have kj: "k = j" by simp
  show ?case
  proof (cases "req j")
    case (Inr d)
    then show ?thesis using kj assms(1) by (simp add: loop_success)
  next
    case (Inl e)
    with assms(4) have "\<not> (shouldRetry e \<and> int j < m)" by auto
    with Inl kj assms(1) show ?thesis
      by (subst executeWithRetry_loop.simps) (auto simp: Let_def)
  qed
next
  case (Suc d)
  then have lt: "k < j" by linarith
  from Suc.prems lt obtain e where e: "req k = Inl e" "shouldRetry e" by (metis order_refl)
  have d: "d = j - Suc k" using Suc.hyps(2) by linarith
  have le': "Suc k \<le> j" using lt by simp
  have km: "int k < m" using lt assms(1) by linarith
  have all: "\<forall>i. Suc k \<le> i \<and> i < j \<longrightarrow> (\<exists>e. req i = Inl e \<and> shouldRetry e)"
    using Suc.prems by auto
  note ih = Suc.hyps(1)[OF d le' all, of "Some e"]
  have up: "[Suc k..<Suc j] = Suc k # [Suc (Suc k)..<Suc j]"
  proof -
    have "Suc k < Suc j" using lt by linarith
    then show ?thesis by (rule upt_conv_Cons)
  qed
  have step: "executeWithRetry_loop m req k le
      = (case executeWithRetry_loop m req (Suc k) (Some e) of
           (evs, r) \<Rightarrow> ((if k > 0 then [Delay (2 ^ k * 1000)] else []) @ [Request k] @ evs, r))"
    using e km by (subst executeWithRetry_loop.simps) simp
  show ?case unfolding step ih up by (simp del: upt_Suc)
qed

lemma retryable_iff:
  "shouldRetry err \<longleftrightarrow>
     (response_status err = None \<or> (\<exists>status. response_status err = Some status \<and> 500 \<le> status))"
  by (cases "response_status err") (simp_all add: shouldRetry_def)

lemma not_retryable_iff:
  "\<not> shouldRetry err \<longleftrightarrow> (\<exists>status. response_status err = Some status \<and> status < 500)"
  by (cases "response_status err") (auto simp: shouldRetry_def)

lemma stopping_attempt_exists:
  assumes "0 \<le> m"
  shows "\<exists>j. int j \<le> m
           \<and> (\<forall>i<j. \<exists>e. req i = Inl e \<and> shouldRetry e)
           \<and> (int j = m \<or> (\<exists>d. req j = Inr d) \<or> (\<exists>e. req j = Inl e \<and> \<not> shouldRetry e))"
proof -
  let ?stop = "\<lambda>j. int j = m \<or> (\<exists>d. req j = Inr d) \<or> (\<exists>e. req j = Inl e \<and> \<not> shouldRetry e)"
  have ex: "?stop (nat m)" using assms by simp
  define j where "j = (LEAST j. ?stop j)"
  have sj: "?stop j" unfolding j_def using ex by (rule LeastI)
  have le: "j \<le> nat m" unfolding j_def using ex by (rule Least_le)
  have before: "\<forall>i<j. \<exists>e. req i = Inl e \<and> shouldRetry e"
  proof (intro allI impI)
    fix i assume "i < j"
    then have "\<not> ?stop i" unfolding j_def by (rule not_less_Least)
    then show "\<exists>e. req i = Inl e \<and> shouldRetry e"
      by (cases "req i") auto
  qed
  from sj le before assms show ?thesis by (intro exI[of _ j]) auto
qed


text \<open>
  Claim C5. With a retry count that is not negative, let attempt \<open>j\<close> be the first
  one that succeeds, or fails with a response status below 500 (a 404, say), or is the
  last one allowed, every attempt before it having failed without a response or with a
  status of 500 or more (a 503, say). Such an attempt exists, and the call makes exactly
  the requests \<open>0\<close> to \<open>j\<close>: a 4xx at any attempt is followed by no retry, retry
  number \<open>i\<close> comes after a delay of \<open>2 ^ i * 1000\<close> milliseconds, each delay the
  double of the one before, and the call returns the data of attempt \<open>j\<close> or throws
  its error unchanged. Whenever the call throws, it throws the error of the last request
  it made.
\<close>

theorem executeWithRetry_retry_policy:
  assumes "0 \<le> retries"
  shows "(\<forall>j. int j \<le> retries
            \<and> (\<forall>i<j. \<exists>err. reqFunction i = Inl err
                  \<and> (response_status err = None
                      \<or> (\<exists>status. response_status err = Some status \<and> 500 \<le> status)))
            \<and> (int j = retries \<or> (\<exists>data. reqFunction j = Inr data)
                 \<or> (\<exists>err status. reqFunction j = Inl err \<and> response_status err = Some status
                       \<and> status < 500))
          \<longrightarrow> executeWithRetry retries reqFunction
                = (Request 0 # concat (map (\<lambda>i. [Delay (2 ^ i * 1000), Request i]) [1..<Suc j]),
                   case reqFunction j of Inr data \<Rightarrow> Inr data | Inl err \<Rightarrow> Inl (Some err))
              \<and> requests (fst (executeWithRetry retries reqFunction)) = [0..<Suc j]
              \<and> delays (fst (executeWithRetry retries reqFunction))
                  = map (\<lambda>i. 2 ^ i * 1000) [1..<Suc j]
              \<and> sorted_wrt (<) (delays (fst (executeWithRetry retries reqFunction))))
       \<and> (\<exists>j. int j \<le> retries
            \<and> (\<forall>i<j. \<exists>err. reqFunction i = Inl err
                  \<and> (response_status err = None
                      \<or> (\<exists>status. response_status err = Some status \<and> 500 \<le> status)))
            \<and> (int j = retries \<or> (\<exists>data. reqFunction j = Inr data)
                 \<or> (\<exists>err status. reqFunction j = Inl err \<and> response_status err = Some status
                       \<and> status < 500)))
       \<and> (\<forall>evs x. executeWithRetry retries reqFunction = (evs, Inl x)
            \<longrightarrow> (\<exists>n err. evs \<noteq> [] \<and> last evs = Request n \<and> reqFunction n = Inl err \<and> x = Some err))"
proof (intro conjI)
  show "\<forall>j. int j \<le> retries
            \<and> (\<forall>i<j. \<exists>err. reqFunction i = Inl err
                  \<and> (response_status err = None
                      \<or> (\<exists>status. response_status err = Some status \<and> 500 \<le> status)))
            \<and> (int j = retries \<or> (\<exists>data. reqFunction j = Inr data)
                 \<or> (\<exists>err status. reqFunction j = Inl err \<and> response_status err = Some status
                       \<and> status < 500))
          \<longrightarrow> executeWithRetry retries reqFunction
                = (Request 0 # concat (map (\<lambda>i. [Delay (2 ^ i * 1000), Request i]) [1..<Suc j]),
                   case reqFunction j of Inr data \<Rightarrow> Inr data | Inl err \<Rightarrow> Inl (Some err))
              \<and> requests (fst (executeWithRetry retries reqFunction)) = [0..<Suc j]
              \<and> delays (fst (executeWithRetry retries reqFunction))
                  = map (\<lambda>i. 2 ^ i * 1000) [1..<Suc j]
              \<and> sorted_wrt (<) (delays (fst (executeWithRetry retries reqFunction)))"
  proof (intro allI impI)
    fix j
    assume a: "int j \<le> retries
            \<and> (\<forall>i<j. \<exists>err. reqFunction i = Inl err
                  \<and> (response_status err = None
                      \<or> (\<exists>status. response_status err = Some status \<and> 500 \<le> status)))
            \<and> (int j = retries \<or> (\<exists>data. reqFunction j = Inr data)
                 \<or> (\<exists>err status. reqFunction j = Inl err \<and> response_status err = Some status
                       \<and> status < 500))"
    then have le: "int j \<le> retries" by simp
    have before: "\<forall>i. 0 \<le> i \<and> i < j \<longrightarrow> (\<exists>e. reqFunction i = Inl e \<and> shouldRetry e)"
      using a by (simp add: retryable_iff)
    have stop: "int j = retries \<or> (\<exists>d. reqFunction j = Inr d)
                  \<or> (\<exists>e. reqFunction j = Inl e \<and> \<not> shouldRetry e)"
      using a unfolding not_retryable_iff by blast
    have run: "executeWithRetry retries reqFunction
                = (Request 0 # concat (map (\<lambda>i. [Delay (2 ^ i * 1000), Request i]) [1..<Suc j]),
                   case reqFunction j of Inr data \<Rightarrow> Inr data | Inl err \<Rightarrow> Inl (Some err))"
      unfolding executeWithRetry_def using loop_until[OF le _ before stop, of None] by simp
    have up: "[0..<Suc j] = 0 # [1..<Suc j]"
      by (simp add: upt_conv_Cons del: upt_Suc)
    show "executeWithRetry retries reqFunction
                = (Request 0 # concat (map (\<lambda>i. [Delay (2 ^ i * 1000), Request i]) [1..<Suc j]),
                   case reqFunction j of Inr data \<Rightarrow> Inr data | Inl err \<Rightarrow> Inl (Some err))
              \<and> requests (fst (executeWithRetry retries reqFunction)) = [0..<Suc j]
              \<and> delays (fst (executeWithRetry retries reqFunction))
                  = map (\<lambda>i. 2 ^ i * 1000) [1..<Suc j]
              \<and> sorted_wrt (<) (delays (fst (executeWithRetry retries reqFunction)))"
      unfolding run fst_conv
      by (simp only: delays.simps requests.simps delays_attempts requests_attempts up
                     doubling_increasing simp_thms)
  qed
next
  show "\<exists>j. int j \<le> retries
            \<and> (\<forall>i<j. \<exists>err. reqFunction i = Inl err
                  \<and> (response_status err = None
                      \<or> (\<exists>status. response_status err = Some status \<and> 500 \<le> status)))
            \<and> (int j = retries \<or> (\<exists>data. reqFunction j = Inr data)
                 \<or> (\<exists>err status. reqFunction j = Inl err \<and> response_status err = Some status
                       \<and> status < 500))"
  proof -
    from stopping_attempt_exists[OF assms, of reqFunction] obtain j where
      le: "int j \<le> retries"
      and before: "\<forall>i<j. \<exists>e. reqFunction i = Inl e \<and> shouldRetry e"
      and stop: "int j = retries \<or> (\<exists>d. reqFunction j = Inr d)
                   \<or> (\<exists>e. reqFunction j = Inl e \<and> \<not> shouldRetry e)"
      by blast
    have before': "\<forall>i<j. \<exists>err. reqFunction i = Inl err
                  \<and> (response_status err = None
                      \<or> (\<exists>status. response_status err = Some status \<and> 500 \<le> status))"
      using before by (simp add: retryable_iff)
    have stop': "int j = retries \<or> (\<exists>data. reqFunction j = Inr data)
                 \<or> (\<exists>err status. reqFunction j = Inl err \<and> response_status err = Some status
                       \<and> status < 500)"
      using stop unfolding not_retryable_iff by blast
    from le before' stop' show ?thesis by blast
  qed
next
  show "\<forall>evs x. executeWithRetry retries reqFunction = (evs, Inl x)
            \<longrightarrow> (\<exists>n err. evs \<noteq> [] \<and> last evs = Request n \<and> reqFunction n = Inl err \<and> x = Some err)"
    unfolding executeWithRetry_def using loop_last_error[of 0 retries reqFunction None] assms
    by simp
qed

theorem executeWithRetry_retry_policy_witness:
  "executeWithRetry 2 (always_status 404)
     = ([Request 0], Inl (Some \<lparr>message = ''Request failed'', response_status = Some 404\<rparr>))
   \<and> executeWithRetry 2 (always_status 503)
     = ([Request 0, Delay 2000, Request 1, Delay 4000, Request 2],
        Inl (Some \<lparr>message = ''Request failed'', response_status = Some 503\<rparr>))
   \<and> executeWithRetry 3 (scripted_status [503, 404])
     = ([Request 0, Delay 2000, Request 1],
        Inl (Some \<lparr>message = ''Request failed'', response_status = Some 404\<rparr>))
   \<and> executeWithRetry 3 (scripted_status [503])
     = ([Request 0, Delay 2000, Request 1], Inr ''ok'')"
proof -
  let ?cond = "\<lambda>retries req j. int j \<le> retries
            \<and> (\<forall>i<j. \<exists>err. req i = Inl err
                  \<and> (response_status err = None
                      \<or> (\<exists>status. response_status err = Some status \<and> 500 \<le> status)))
            \<and> (int j = retries \<or> (\<exists>data. req j = Inr data)
                 \<or> (\<exists>err status. req j = Inl err \<and> response_status err = Some status
                       \<and> status < 500))"
  have h2: "(0::int) \<le> 2" and h3: "(0::int) \<le> 3" by simp_all
  have c1: "?cond 2 (always_status 404) 0" by (simp add: always_status_def)
  have c2: "?cond 2 (always_status 503) 2" by (simp add: always_status_def)
  have c3: "?cond 3 (scripted_status [503, 404]) 1" by (simp add: scripted_status_def)
  have c4: "?cond 3 (scripted_status [503]) 1" by (simp add: scripted_status_def)
  have n0: "[1..<Suc 0] = []" and n1: "[1..<Suc 1] = [1]" and n2: "[1..<Suc 2] = [1, 2]"
    by (simp_all add: upt_rec)
  have r1: "executeWithRetry 2 (always_status 404)
     = (Request 0 # concat (map (\<lambda>i. [Delay (2 ^ i * 1000), Request i]) [1..<Suc 0]),
        case always_status 404 0 of Inr data \<Rightarrow> Inr data | Inl err \<Rightarrow> Inl (Some err))"
    using conjunct1[OF mp[OF spec[OF conjunct1[OF executeWithRetry_retry_policy[OF h2,
            of "always_status 404"]], of 0] c1]] .
  have r2: "executeWithRetry 2 (always_status 503)
     = (Request 0 # concat (map (\<lambda>i. [Delay (2 ^ i * 1000), Request i]) [1..<Suc 2]),
        case always_status 503 2 of Inr data \<Rightarrow> Inr data | Inl err \<Rightarrow> Inl (Some err))"
    using conjunct1[OF mp[OF spec[OF conjunct1[OF executeWithRetry_retry_policy[OF h2,
            of "always_status 503"]], of 2] c2]] .
  have r3: "executeWithRetry 3 (scripted_status [503, 404])
     = (Request 0 # concat (map (\<lambda>i. [Delay (2 ^ i * 1000), Request i]) [1..<Suc 1]),
        case scripted_status [503, 404] 1 of Inr data \<Rightarrow> Inr data | Inl err \<Rightarrow> Inl (Some err))"
    using conjunct1[OF mp[OF spec[OF conjunct1[OF executeWithRetry_retry_policy[OF h3,
            of "scripted_status [503, 404]"]], of 1] c3]] .
  have r4: "executeWithRetry 3 (scripted_status [503])
     = (Request 0 # concat (map (\<lambda>i. [Delay (2 ^ i * 1000), Request i]) [1..<Suc 1]),
        case scripted_status [503] 1 of Inr data \<Rightarrow> Inr data | Inl err \<Rightarrow> Inl (Some err))"
    using conjunct1[OF mp[OF spec[OF conjunct1[OF executeWithRetry_retry_policy[OF h3,
            of "scripted_status [503]"]], of 1] c4]] .
  show ?thesis
    unfolding r1 r2 r3 r4 n0 n1 n2
    by (simp add: always_status_def scripted_status_def)
qed

section \<open>The status poller\<close>

declare monitor_loop.simps [simp del]

lemma monitor_loop_stop:
  "\<not> (int n < maxRetries options \<and> \<not> deploymentSuccessful st)
     \<Longrightarrow> monitor_loop options w n st = ([], n, st)"
  by (subst monitor_loop.simps) auto

lemma monitor_loop_break:
  "int n < maxRetries options \<Longrightarrow> \<not> deploymentSuccessful st
     \<Longrightarrow> monitor_try options w n st = (evs, st1, Break)
     \<Longrightarrow> monitor_loop options w n st = (evs, n, st1)"
  by (subst monitor_loop.simps) simp

lemma monitor_loop_next:
  "int n < maxRetries options \<Longrightarrow> \<not> deploymentSuccessful st
     \<Longrightarrow> monitor_try options w n st = (evs, st1, Next hadError)
     \<Longrightarrow> monitor_loop options w n st
         = (evs @ (if int (Suc n) < maxRetries options \<and> \<not> deploymentSuccessful st1
                   then [WaitNextCheck (remainingWaitTime options w n hadError)] else [])
                @ fst (monitor_loop options w (Suc n) st1),
            snd (monitor_loop options w (Suc n) st1))"
  by (subst monitor_loop.simps) (simp add: case_prod_unfold)

lemma monitor_try_failure:
  "getCvmByAppId w n = Inl e \<Longrightarrow>
   monitor_try options w n st =
     (StatusQuery n (queryTimeout options) # (if onError options then [OnError e] else [])
        @ (if 3 \<le> consecutiveErrors st + 1 then [RecoveryPause (interval options * 2)] else []),
      st\<lparr>consecutiveErrors :=
            (if 3 \<le> consecutiveErrors st + 1 then consecutiveErrors st + 1 - 1
             else consecutiveErrors st + 1)\<rparr>,
      Next True)"
  by (simp add: monitor_try_def maxConsecutiveErrors_def Let_def)

lemma monitor_try_success_resets:
  "getCvmByAppId w n = Inr c \<Longrightarrow>
   consecutiveErrors (fst (snd (monitor_try options w n st))) = 0
   \<and> filter isRecoveryPause (fst (monitor_try options w n st)) = []"
  by (simp add: monitor_try_def Let_def)

lemma monitor_try_Next_iff:
  "monitor_try options w n st = (evs, st1, Next hadError)
     \<Longrightarrow> hadError = isl (getCvmByAppId w n) \<and> deploymentSuccessful st1 = deploymentSuccessful st"
  by (auto simp: monitor_try_def Let_def maxConsecutiveErrors_def split: sum.splits if_splits)


lemma lower_starting: "toLowerCase ''starting'' = ''starting''"
  by (simp add: toLowerCase_def toLowerCase_char_def)

lemma lower_running: "toLowerCase ''running'' = ''running''"
  by (simp add: toLowerCase_def toLowerCase_char_def)

lemma monitor_try_starting:
  "getCvmByAppId w n = Inr c \<Longrightarrow> cvm_status c = ''starting'' \<Longrightarrow>
   monitor_try options w n st =
     (StatusQuery n (queryTimeout options)
        # (if lastStatus st \<noteq> ''starting'' \<and> onStatusChange options
           then [OnStatusChange ''starting'' c] else []),
      st\<lparr>finalCvm := Some c, consecutiveErrors := 0, lastStatus := ''starting''\<rparr>,
      Next False)"
  by (cases "lastStatus st = ''starting''") (simp_all add: monitor_try_def Let_def lower_starting)







lemma monitor_loop_failure_step:
  assumes "getCvmByAppId w n = Inl e" "int n < maxRetries options" "\<not> deploymentSuccessful st"
  shows "monitor_loop options w n st =
     (StatusQuery n (queryTimeout options) # (if onError options then [OnError e] else [])
        @ (if 3 \<le> consecutiveErrors st + 1 then [RecoveryPause (interval options * 2)] else [])
        @ (if int (Suc n) < maxRetries options
           then [WaitNextCheck (remainingWaitTime options w n True)] else [])
        @ fst (monitor_loop options w (Suc n)
                 (st\<lparr>consecutiveErrors :=
                        (if 3 \<le> consecutiveErrors st + 1 then consecutiveErrors st + 1 - 1
                         else consecutiveErrors st + 1)\<rparr>)),
      snd (monitor_loop options w (Suc n)
             (st\<lparr>consecutiveErrors :=
                    (if 3 \<le> consecutiveErrors st + 1 then consecutiveErrors st + 1 - 1
                     else consecutiveErrors st + 1)\<rparr>)))"
  using assms(3)
  by (subst monitor_loop_next[OF assms(2,3) monitor_try_failure[OF assms(1)]]) simp

lemma monitor_run_all_failing:
  assumes m: "mo_maxRetries options = Some 5"
    and q: "\<forall>n. getCvmByAppId w n = Inl (err n)"
  shows "monitorDeploymentStatus options w =
    ([StatusQuery 0 (queryTimeout options)] @ (if onError options then [OnError (err 0)] else [])
       @ [WaitNextCheck (remainingWaitTime options w 0 True),
          StatusQuery 1 (queryTimeout options)] @ (if onError options then [OnError (err 1)] else [])
       @ [WaitNextCheck (remainingWaitTime options w 1 True),
          StatusQuery 2 (queryTimeout options)] @ (if onError options then [OnError (err 2)] else [])
       @ [RecoveryPause (interval options * 2),
          WaitNextCheck (remainingWaitTime options w 2 True),
          StatusQuery 3 (queryTimeout options)] @ (if onError options then [OnError (err 3)] else [])
       @ [RecoveryPause (interval options * 2),
          WaitNextCheck (remainingWaitTime options w 3 True),
          StatusQuery 4 (queryTimeout options)] @ (if onError options then [OnError (err 4)] else [])
       @ [RecoveryPause (interval options * 2)]
       @ (if onTimeout options then [OnTimeout None] else []),
     None)"
proof -
  have mr: "maxRetries options = 5" using m by (simp add: maxRetries_def)
  have step: "\<And>n st. int n < 5 \<Longrightarrow> \<not> deploymentSuccessful st \<Longrightarrow>
     monitor_loop options w n st =
     (StatusQuery n (queryTimeout options) # (if onError options then [OnError (err n)] else [])
        @ (if 3 \<le> consecutiveErrors st + 1 then [RecoveryPause (interval options * 2)] else [])
        @ (if int (Suc n) < 5
           then [WaitNextCheck (remainingWaitTime options w n True)] else [])
        @ fst (monitor_loop options w (Suc n)
                 (st\<lparr>consecutiveErrors :=
                        (if 3 \<le> consecutiveErrors st + 1 then consecutiveErrors st + 1 - 1
                         else consecutiveErrors st + 1)\<rparr>)),
      snd (monitor_loop options w (Suc n)
             (st\<lparr>consecutiveErrors :=
                    (if 3 \<le> consecutiveErrors st + 1 then consecutiveErrors st + 1 - 1
                     else consecutiveErrors st + 1)\<rparr>)))"
    using monitor_loop_failure_step[of w _ "err _" options] q mr by simp
  have stop: "\<And>st. monitor_loop options w (Suc (Suc (Suc (Suc (Suc 0))))) st
                = ([], Suc (Suc (Suc (Suc (Suc 0)))), st)"
    by (rule monitor_loop_stop) (simp add: mr)
  show ?thesis
    unfolding monitorDeploymentStatus_def
    by (simp add: step stop mr eval_nat_numeral)
qed


text \<open>
  Claim C6. With \<open>maxRetries = 5\<close> and a status query that throws at every attempt,
  \<open>monitorDeploymentStatus\<close> returns: \<open>onError\<close> is invoked exactly five times, once
  with the error of each attempt, five queries are made, \<open>onTimeout\<close> is invoked exactly
  once, as the last event, with no snapshot, and the value returned is \<open>null\<close>.
\<close>

theorem monitor_always_failing_query:
  assumes "mo_maxRetries options = Some 5" and "onError options" and "onTimeout options"
    and "\<forall>n. getCvmByAppId w n = Inl (err n)"
  shows "filter isOnError (fst (monitorDeploymentStatus options w))
           = [OnError (err 0), OnError (err 1), OnError (err 2), OnError (err 3), OnError (err 4)]
       \<and> length (filter isStatusQuery (fst (monitorDeploymentStatus options w))) = 5
       \<and> filter isOnTimeout (fst (monitorDeploymentStatus options w)) = [OnTimeout None]
       \<and> last (fst (monitorDeploymentStatus options w)) = OnTimeout None
       \<and> snd (monitorDeploymentStatus options w) = None"
  unfolding monitor_run_all_failing[OF assms(1) assms(4)]
  using assms(2,3) by simp

theorem monitor_always_failing_query_witness:
  "length (filter isOnError (fst (monitorDeploymentStatus (all_callbacks (Some 5)) (scripted_world [])))) = 5
   \<and> filter isOnTimeout (fst (monitorDeploymentStatus (all_callbacks (Some 5)) (scripted_world [])))
       = [OnTimeout None]
   \<and> snd (monitorDeploymentStatus (all_callbacks (Some 5)) (scripted_world [])) = None"
proof -
  have h: "mo_maxRetries (all_callbacks (Some 5)) = Some 5" "onError (all_callbacks (Some 5))"
    "onTimeout (all_callbacks (Some 5))"
    by (simp_all add: all_callbacks_def)
  have q: "\<forall>n. getCvmByAppId (scripted_world []) n = Inl (External ''ECONNRESET'')"
    by (simp add: scripted_world_def scripted_query_def)
  from monitor_always_failing_query[OF h q] show ?thesis by simp
qed

lemma monitor_try_count_bounded:
  assumes "0 \<le> consecutiveErrors st \<and> consecutiveErrors st \<le> 2"
    and "monitor_try options w n st = (evs, st1, fl)"
  shows "0 \<le> consecutiveErrors st1 \<and> consecutiveErrors st1 \<le> 2"
proof (cases "getCvmByAppId w n")
  case (Inl e)
  then show ?thesis using assms by (auto simp: monitor_try_failure split: if_splits)
next
  case (Inr c)
  then show ?thesis using monitor_try_success_resets[OF Inr, of options st] assms(2) by simp
qed

lemma monitor_loop_count_bounded:
  "0 \<le> consecutiveErrors st \<and> consecutiveErrors st \<le> 2
     \<Longrightarrow> 0 \<le> consecutiveErrors (snd (snd (monitor_loop options w n st)))
         \<and> consecutiveErrors (snd (snd (monitor_loop options w n st))) \<le> 2"
proof (induction "nat (maxRetries options - int n)" arbitrary: n st)
  case 0
  then have "\<not> (int n < maxRetries options \<and> \<not> deploymentSuccessful st)" by simp
  then show ?case using 0 by (simp add: monitor_loop_stop)
next
  case (Suc d)
  show ?case
  proof (cases "int n < maxRetries options \<and> \<not> deploymentSuccessful st")
    case False
    then show ?thesis using Suc.prems by (simp add: monitor_loop_stop)
  next
    case True
    obtain evs st1 fl where t: "monitor_try options w n st = (evs, st1, fl)"
      by (cases "monitor_try options w n st") auto
    have b: "0 \<le> consecutiveErrors st1 \<and> consecutiveErrors st1 \<le> 2"
      using monitor_try_count_bounded[OF Suc.prems t] .
    show ?thesis
    proof (cases fl)
      case Break
      with True t b show ?thesis by (simp add: monitor_loop_break)
    next
      case (Next hadError)
      have d: "d = nat (maxRetries options - int (Suc n))" using Suc.hyps(2) by simp
      from Suc.hyps(1)[OF d b] True t Next show ?thesis
        by (simp add: monitor_loop_next)
    qed
  qed
qed

lemma monitor_try_terminal:
  assumes "terminal_status w n"
  shows "\<exists>evs st1. monitor_try options w n st = (evs, st1, Break)
           \<and> filter isQueryOrPause evs = [StatusQuery n (queryTimeout options)]
           \<and> consecutiveErrors st1 = 0 \<and> \<not> query_failed w n"
proof (cases "getCvmByAppId w n")
  case (Inl e)
  with assms show ?thesis by (simp add: terminal_status_def)
next
  case (Inr c)
  with assms show ?thesis
    by (auto simp: terminal_status_def monitor_try_def query_failed_def Let_def)
qed

lemma monitor_try_not_terminal:
  assumes "\<not> terminal_status w n"
  shows "\<exists>evs st1 hadError. monitor_try options w n st = (evs, st1, Next hadError)
           \<and> filter isQueryOrPause evs
               = StatusQuery n (queryTimeout options)
                 # (if query_failed w n \<and> 3 \<le> consecutiveErrors st + 1
                    then [RecoveryPause (2 * interval options)] else [])
           \<and> consecutiveErrors st1
               = (if query_failed w n
                  then (if 3 \<le> consecutiveErrors st + 1 then consecutiveErrors st + 1 - 1
                        else consecutiveErrors st + 1)
                  else 0)
           \<and> deploymentSuccessful st1 = deploymentSuccessful st"
proof (cases "getCvmByAppId w n")
  case (Inl e)
  then show ?thesis by (auto simp: monitor_try_failure query_failed_def)
next
  case (Inr c)
  with assms show ?thesis
    by (auto simp: terminal_status_def monitor_try_def query_failed_def Let_def)
qed

lemma monitor_loop_accounting:
  assumes "\<not> deploymentSuccessful st"
    and "consecutiveErrors st = error_count (query_failed w) n"
    and "n \<le> K"
    and "\<forall>i. n \<le> i \<and> i < K \<longrightarrow> int i < maxRetries options \<and> (Suc i < K \<longrightarrow> \<not> terminal_status w i)"
    and "maxRetries options \<le> int K \<or> (n < K \<and> terminal_status w (K - 1))"
  shows "filter isQueryOrPause (fst (monitor_loop options w n st))
           = concat (map (\<lambda>i. StatusQuery i (queryTimeout options)
                               # (if reaches_threshold (query_failed w) i
                                  then [RecoveryPause (2 * interval options)] else []))
                         [n..<K])
       \<and> consecutiveErrors (snd (snd (monitor_loop options w n st)))
           = error_count (query_failed w) K"
  using assms
proof (induction "K - n" arbitrary: n st)
  case 0
  then have nk: "n = K" by simp
  with 0 have "maxRetries options \<le> int n" by auto
  then have "\<not> (int n < maxRetries options \<and> \<not> deploymentSuccessful st)" by simp
  then show ?case using 0 nk by (simp add: monitor_loop_stop)
next
  case (Suc d)
  then have lt: "n < K" by linarith
  with Suc.prems have run: "int n < maxRetries options" by auto
  have up: "[n..<K] = n # [Suc n..<K]" using lt by (rule upt_conv_Cons)
  show ?case
  proof (cases "terminal_status w n")
    case True
    have k: "K = Suc n"
    proof (rule ccontr)
      assume "K \<noteq> Suc n"
      with lt have "Suc n < K" by linarith
      with Suc.prems(4) lt True show False by auto
    qed
    from monitor_try_terminal[OF True, of options st] obtain evs st1 where
      t: "monitor_try options w n st = (evs, st1, Break)"
      and f: "filter isQueryOrPause evs = [StatusQuery n (queryTimeout options)]"
      and c: "consecutiveErrors st1 = 0" and q: "\<not> query_failed w n"
      by blast
    show ?thesis
      using f c q
      by (simp add: monitor_loop_break[OF run Suc.prems(1) t] k reaches_threshold_def)
  next
    case False
    from monitor_try_not_terminal[OF False, of options st] obtain evs st1 hadError where
      t: "monitor_try options w n st = (evs, st1, Next hadError)"
      and f: "filter isQueryOrPause evs
               = StatusQuery n (queryTimeout options)
                 # (if query_failed w n \<and> 3 \<le> consecutiveErrors st + 1
                    then [RecoveryPause (2 * interval options)] else [])"
      and c: "consecutiveErrors st1
               = (if query_failed w n
                  then (if 3 \<le> consecutiveErrors st + 1 then consecutiveErrors st + 1 - 1
                        else consecutiveErrors st + 1)
                  else 0)"
      and ds: "deploymentSuccessful st1 = deploymentSuccessful st"
      by blast
    have d: "d = K - Suc n" using Suc.hyps(2) by linarith
    have p1: "\<not> deploymentSuccessful st1" using ds Suc.prems(1) by simp
    have p2: "consecutiveErrors st1 = error_count (query_failed w) (Suc n)"
      using c Suc.prems(2) by simp
    have p3: "Suc n \<le> K" using lt by simp
    have p4: "\<forall>i. Suc n \<le> i \<and> i < K \<longrightarrow>
                int i < maxRetries options \<and> (Suc i < K \<longrightarrow> \<not> terminal_status w i)"
      using Suc.prems(4) by auto
    have p5: "maxRetries options \<le> int K \<or> (Suc n < K \<and> terminal_status w (K - 1))"
    proof (cases "Suc n < K")
      case True
      with Suc.prems(5) show ?thesis by auto
    next
      case nlt: False
      with lt have "K - 1 = n" by linarith
      with Suc.prems(5) False show ?thesis by auto
    qed
    note ih = Suc.hyps(1)[OF d p1 p2 p3 p4 p5]
    show ?thesis
      unfolding monitor_loop_next[OF run Suc.prems(1) t] up
      using ih f Suc.prems(2) by (simp add: reaches_threshold_def)
  qed
qed

lemma run_length_exists: "\<exists>K. run_length options w K"
proof (cases "\<exists>i. int i < maxRetries options \<and> terminal_status w i")
  case True
  define j where "j = (LEAST i. int i < maxRetries options \<and> terminal_status w i)"
  have j: "int j < maxRetries options \<and> terminal_status w j"
    unfolding j_def using True by (rule LeastI_ex)
  have least: "\<And>i. i < j \<Longrightarrow> \<not> (int i < maxRetries options \<and> terminal_status w i)"
    unfolding j_def by (rule not_less_Least)
  have "run_length options w (Suc j)"
    unfolding run_length_def using j least by (auto simp: less_Suc_eq)
  then show ?thesis ..
next
  case False
  have "run_length options w (nat (maxRetries options))"
    unfolding run_length_def using False by auto
  then show ?thesis ..
qed


text \<open>
  Claim C7. In every run of \<open>monitorDeploymentStatus\<close>, of \<open>K\<close> iterations say
  (every run has such a \<open>K\<close>): the status queries and the recovery pauses of the
  trace are the queries \<open>0\<close> to \<open>K - 1\<close> in order, with exactly one pause of twice
  the interval after the query of each iteration in which the consecutive-error count
  (incremented on each failure, reset to zero on each success, decremented by one after
  it reaches 3) reaches the threshold, and no other pause; and the count the loop holds
  at the end is that count. In one pass through the \<open>try\<close> statement, from any state:
  a failed query increments the count, with one pause and a decrement by one when the
  incremented count reaches 3 and no pause below 3; a successful query sets it to zero
  without a pause; and a count between 0 and 2 stays between 0 and 2, in one pass and
  over the loop.
\<close>

theorem consecutive_error_accounting:
  "(\<forall>K. run_length options w K \<longrightarrow>
       filter isQueryOrPause (fst (monitorDeploymentStatus options w))
         = concat (map (\<lambda>i. StatusQuery i (queryTimeout options)
                             # (if reaches_threshold (query_failed w) i
                                then [RecoveryPause (2 * interval options)] else []))
                       [0..<K])
       \<and> consecutiveErrors (snd (snd (monitor_loop options w 0
             \<lparr>deploymentSuccessful = False, lastStatus = [], finalCvm = None,
              consecutiveErrors = 0\<rparr>)))
           = error_count (query_failed w) K)
   \<and> (\<exists>K. run_length options w K)
   \<and> (\<forall>e. getCvmByAppId w n = Inl e \<longrightarrow>
      (consecutiveErrors st + 1 < 3 \<longrightarrow>
         consecutiveErrors (fst (snd (monitor_try options w n st))) = consecutiveErrors st + 1
         \<and> filter isRecoveryPause (fst (monitor_try options w n st)) = [])
    \<and> (3 \<le> consecutiveErrors st + 1 \<longrightarrow>
         consecutiveErrors (fst (snd (monitor_try options w n st))) = consecutiveErrors st + 1 - 1
         \<and> filter isRecoveryPause (fst (monitor_try options w n st))
             = [RecoveryPause (2 * interval options)]))
   \<and> (\<forall>c. getCvmByAppId w n = Inr c \<longrightarrow>
        consecutiveErrors (fst (snd (monitor_try options w n st))) = 0
        \<and> filter isRecoveryPause (fst (monitor_try options w n st)) = [])
   \<and> (0 \<le> consecutiveErrors st \<and> consecutiveErrors st \<le> 2 \<longrightarrow>
        0 \<le> consecutiveErrors (fst (snd (monitor_try options w n st)))
        \<and> consecutiveErrors (fst (snd (monitor_try options w n st))) \<le> 2
        \<and> 0 \<le> consecutiveErrors (snd (snd (monitor_loop options w n st)))
        \<and> consecutiveErrors (snd (snd (monitor_loop options w n st))) \<le> 2)"
proof -
  let ?init = "\<lparr>deploymentSuccessful = False, lastStatus = [], finalCvm = None,
               consecutiveErrors = 0\<rparr>"
  have run: "\<forall>K. run_length options w K \<longrightarrow>
       filter isQueryOrPause (fst (monitorDeploymentStatus options w))
         = concat (map (\<lambda>i. StatusQuery i (queryTimeout options)
                             # (if reaches_threshold (query_failed w) i
                                then [RecoveryPause (2 * interval options)] else []))
                       [0..<K])
       \<and> consecutiveErrors (snd (snd (monitor_loop options w 0 ?init)))
           = error_count (query_failed w) K"
  proof (intro allI impI)
    fix K assume k: "run_length options w K"
    have a1: "\<not> deploymentSuccessful ?init" by simp
    have a2: "consecutiveErrors ?init = error_count (query_failed w) 0" by simp
    have a3: "0 \<le> K" by simp
    have a4: "\<forall>i. 0 \<le> i \<and> i < K \<longrightarrow>
                int i < maxRetries options \<and> (Suc i < K \<longrightarrow> \<not> terminal_status w i)"
      using k by (simp add: run_length_def)
    have a5: "maxRetries options \<le> int K \<or> (0 < K \<and> terminal_status w (K - 1))"
      using k by (simp add: run_length_def)
    note loop = monitor_loop_accounting[OF a1 a2 a3 a4 a5]
    have proj: "filter isQueryOrPause (fst (monitorDeploymentStatus options w))
                  = filter isQueryOrPause (fst (monitor_loop options w 0 ?init))"
      by (simp add: monitorDeploymentStatus_def case_prod_unfold)
    show "filter isQueryOrPause (fst (monitorDeploymentStatus options w))
         = concat (map (\<lambda>i. StatusQuery i (queryTimeout options)
                             # (if reaches_threshold (query_failed w) i
                                then [RecoveryPause (2 * interval options)] else []))
                       [0..<K])
       \<and> consecutiveErrors (snd (snd (monitor_loop options w 0 ?init)))
           = error_count (query_failed w) K"
      unfolding proj using loop by blast
  qed
  have ex: "\<exists>K. run_length options w K" by (rule run_length_exists)
  have failure: "\<forall>e. getCvmByAppId w n = Inl e \<longrightarrow>
      (consecutiveErrors st + 1 < 3 \<longrightarrow>
         consecutiveErrors (fst (snd (monitor_try options w n st))) = consecutiveErrors st + 1
         \<and> filter isRecoveryPause (fst (monitor_try options w n st)) = [])
    \<and> (3 \<le> consecutiveErrors st + 1 \<longrightarrow>
         consecutiveErrors (fst (snd (monitor_try options w n st))) = consecutiveErrors st + 1 - 1
         \<and> filter isRecoveryPause (fst (monitor_try options w n st))
             = [RecoveryPause (2 * interval options)])"
    by (simp add: monitor_try_failure)
  have success: "\<forall>c. getCvmByAppId w n = Inr c \<longrightarrow>
        consecutiveErrors (fst (snd (monitor_try options w n st))) = 0
        \<and> filter isRecoveryPause (fst (monitor_try options w n st)) = []"
    using monitor_try_success_resets by blast
  have bounded: "0 \<le> consecutiveErrors st \<and> consecutiveErrors st \<le> 2 \<longrightarrow>
        0 \<le> consecutiveErrors (fst (snd (monitor_try options w n st)))
        \<and> consecutiveErrors (fst (snd (monitor_try options w n st))) \<le> 2
        \<and> 0 \<le> consecutiveErrors (snd (snd (monitor_loop options w n st)))
        \<and> consecutiveErrors (snd (snd (monitor_loop options w n st))) \<le> 2"
  proof
    assume r: "0 \<le> consecutiveErrors st \<and> consecutiveErrors st \<le> 2"
    obtain evs st1 fl where t: "monitor_try options w n st = (evs, st1, fl)"
      by (cases "monitor_try options w n st") auto
    from monitor_try_count_bounded[OF r t] monitor_loop_count_bounded[OF r, of options w n] t
    show "0 \<le> consecutiveErrors (fst (snd (monitor_try options w n st)))
        \<and> consecutiveErrors (fst (snd (monitor_try options w n st))) \<le> 2
        \<and> 0 \<le> consecutiveErrors (snd (snd (monitor_loop options w n st)))
        \<and> consecutiveErrors (snd (snd (monitor_loop options w n st))) \<le> 2"
      by simp
  qed
  show ?thesis
    apply (rule conjI, rule run)
    apply (rule conjI, rule ex)
    apply (rule conjI, rule failure)
    apply (rule conjI, rule success)
    apply (rule bounded)
    done
qed

theorem consecutive_error_accounting_witness:
  "filter isQueryOrPause (fst (monitorDeploymentStatus (all_callbacks (Some 5)) (scripted_world [])))
     = [StatusQuery 0 8000, StatusQuery 1 8000, StatusQuery 2 8000, RecoveryPause 10000,
        StatusQuery 3 8000, RecoveryPause 10000, StatusQuery 4 8000, RecoveryPause 10000]
   \<and> filter isQueryOrPause
        (fst (monitorDeploymentStatus (all_callbacks (Some 5))
               (scripted_world [''starting'', ''starting'', ''running''])))
     = [StatusQuery 0 8000, StatusQuery 1 8000, StatusQuery 2 8000]
   \<and> consecutiveErrors (fst (snd (monitor_try (all_callbacks None) (scripted_world []) 2 two_errors))) = 2
   \<and> filter isRecoveryPause (fst (monitor_try (all_callbacks None) (scripted_world []) 2 two_errors))
       = [RecoveryPause 10000]"
proof -
  let ?o = "all_callbacks (Some 5)"
  let ?w = "scripted_world []"
  let ?v = "scripted_world [''starting'', ''starting'', ''running'']"
  note t = consecutive_error_accounting[of ?o ?w 2 two_errors]
  note u = consecutive_error_accounting[of ?o ?v 2 two_errors]
  note p = consecutive_error_accounting[of "all_callbacks None" ?w 2 two_errors]
  have rl: "run_length ?o ?w 5"
    by (simp add: run_length_def terminal_status_def scripted_world_def scripted_query_def
                  maxRetries_def all_callbacks_def)
  have rv: "run_length ?o ?v 3"
    by (simp add: run_length_def terminal_status_def scripted_world_def scripted_query_def
                  maxRetries_def all_callbacks_def snapshot_def lower_running lower_starting
                  less_Suc_eq eval_nat_numeral)
  have qf: "query_failed ?w = (\<lambda>n. True)"
    by (rule ext) (simp add: query_failed_def scripted_world_def scripted_query_def)
  have qv: "\<And>n. n < 3 \<Longrightarrow> \<not> query_failed ?v n"
    by (simp add: query_failed_def scripted_world_def scripted_query_def)
  have th: "map (reaches_threshold (\<lambda>n. True)) [0..<5] = [False, False, True, True, True]"
    by (simp add: reaches_threshold_def upt_rec eval_nat_numeral)
  have c: "queryTimeout ?o = 8000" "2 * interval ?o = 10000"
    "2 * interval (all_callbacks None) = 10000"
    by (simp_all add: queryTimeout_def interval_def all_callbacks_def)
  have a: "filter isQueryOrPause (fst (monitorDeploymentStatus ?o ?w))
         = concat (map (\<lambda>i. StatusQuery i (queryTimeout ?o)
                             # (if reaches_threshold (query_failed ?w) i
                                then [RecoveryPause (2 * interval ?o)] else []))
                       [0..<5])"
    using conjunct1[OF mp[OF spec[OF conjunct1[OF t], of 5] rl]] .
  have b: "filter isQueryOrPause (fst (monitorDeploymentStatus ?o ?v))
         = concat (map (\<lambda>i. StatusQuery i (queryTimeout ?o)
                             # (if reaches_threshold (query_failed ?v) i
                                then [RecoveryPause (2 * interval ?o)] else []))
                       [0..<3])"
    using conjunct1[OF mp[OF spec[OF conjunct1[OF u], of 3] rv]] .
  have f: "getCvmByAppId ?w 2 = Inl (External ''ECONNRESET'')"
    by (simp add: scripted_world_def scripted_query_def)
  have three: "3 \<le> consecutiveErrors two_errors + 1" by (simp add: two_errors_def)
  from conjunct1[OF conjunct2[OF conjunct2[OF p]]] f three
  have d: "consecutiveErrors (fst (snd (monitor_try (all_callbacks None) ?w 2 two_errors)))
             = consecutiveErrors two_errors + 1 - 1
         \<and> filter isRecoveryPause (fst (monitor_try (all_callbacks None) ?w 2 two_errors))
             = [RecoveryPause (2 * interval (all_callbacks None))]"
    by blast
  have a': "filter isQueryOrPause (fst (monitorDeploymentStatus ?o ?w))
     = [StatusQuery 0 8000, StatusQuery 1 8000, StatusQuery 2 8000, RecoveryPause 10000,
        StatusQuery 3 8000, RecoveryPause 10000, StatusQuery 4 8000, RecoveryPause 10000]"
    unfolding a qf c using th by (simp add: upt_rec eval_nat_numeral)
  have b': "filter isQueryOrPause (fst (monitorDeploymentStatus ?o ?v))
     = [StatusQuery 0 8000, StatusQuery 1 8000, StatusQuery 2 8000]"
    unfolding b c using qv by (simp add: upt_rec reaches_threshold_def)
  from a' b' d show ?thesis unfolding c by (simp add: two_errors_def)
qed

text \<open>
  Claim C8. In an iteration that does not leave the loop and is followed by another one,
  the wait before the next iteration is \<open>max 0 (target - elapsed)\<close>, where the
  target is half the interval when the status query of this iteration failed and the
  interval otherwise, and \<open>elapsed\<close> is the time this iteration has taken.
\<close>

theorem wait_before_next_iteration:
  assumes "int (Suc n) < maxRetries options" and "\<not> deploymentSuccessful st"
    and "monitor_try options w n st = (evs, st1, Next hadError)"
  shows "hadError = isl (getCvmByAppId w n)
       \<and> monitor_loop options w n st =
           (evs @ [WaitNextCheck (max 0 ((if hadError then interval options / 2
                                           else interval options) - elapsedTime w n))]
                @ fst (monitor_loop options w (Suc n) st1),
            snd (monitor_loop options w (Suc n) st1))"
proof -
  have lt: "int n < maxRetries options" using assms(1) by simp
  from monitor_try_Next_iff[OF assms(3)] assms(2)
  have h: "hadError = isl (getCvmByAppId w n)" and d: "\<not> deploymentSuccessful st1" by simp_all
  show ?thesis
    unfolding monitor_loop_next[OF lt assms(2) assms(3)]
    using h d assms(1) by (simp add: remainingWaitTime_def Let_def)
qed

theorem wait_before_next_iteration_witness:
  "fst (monitor_loop (all_callbacks None) (scripted_world [''starting'']) 0 two_errors)
     = [StatusQuery 0 8000, OnStatusChange ''starting'' (snapshot ''starting''), WaitNextCheck 3800]
       @ fst (monitor_loop (all_callbacks None) (scripted_world [''starting'']) (Suc 0)
               (two_errors\<lparr>finalCvm := Some (snapshot ''starting''), consecutiveErrors := 0,
                            lastStatus := ''starting''\<rparr>))
   \<and> fst (monitor_loop (all_callbacks None) (scripted_world [''starting'']) 1 two_errors)
     = [StatusQuery 1 8000, OnError (External ''ECONNRESET''), RecoveryPause 10000, WaitNextCheck 1300]
       @ fst (monitor_loop (all_callbacks None) (scripted_world [''starting'']) (Suc 1)
               (two_errors\<lparr>consecutiveErrors := 2\<rparr>))"
proof -
  let ?o = "all_callbacks None" and ?w = "scripted_world [''starting'']"
  have m: "int (Suc 0) < maxRetries ?o" "int (Suc 1) < maxRetries ?o"
    by (simp_all add: maxRetries_def all_callbacks_def)
  have d: "\<not> deploymentSuccessful two_errors" by (simp add: two_errors_def)
  have q0: "getCvmByAppId ?w 0 = Inr (snapshot ''starting'')"
    and q1: "getCvmByAppId ?w 1 = Inl (External ''ECONNRESET'')"
    by (simp_all add: scripted_world_def scripted_query_def)
  have s: "cvm_status (snapshot ''starting'') = ''starting''" by (simp add: snapshot_def)
  have t0: "monitor_try ?o ?w 0 two_errors
     = ([StatusQuery 0 8000, OnStatusChange ''starting'' (snapshot ''starting'')],
        two_errors\<lparr>finalCvm := Some (snapshot ''starting''), consecutiveErrors := 0,
                     lastStatus := ''starting''\<rparr>, Next False)"
    unfolding monitor_try_starting[OF q0 s]
    by (simp add: two_errors_def all_callbacks_def queryTimeout_def)
  have t1: "monitor_try ?o ?w 1 two_errors
     = ([StatusQuery 1 8000, OnError (External ''ECONNRESET''), RecoveryPause 10000],
        two_errors\<lparr>consecutiveErrors := 2\<rparr>, Next True)"
    unfolding monitor_try_failure[OF q1]
    by (simp add: two_errors_def all_callbacks_def queryTimeout_def interval_def)
  have e: "elapsedTime ?w 0 = 1200" "elapsedTime ?w 1 = 1200" by (simp_all add: scripted_world_def)
  have i: "interval ?o = 5000" by (simp add: interval_def all_callbacks_def)
  from wait_before_next_iteration[OF m(1) d t0] wait_before_next_iteration[OF m(2) d t1]
  show ?thesis unfolding e i by simp
qed

section \<open>Deployment and upgrade\<close>

lemma findTeepod_default: "findTeepod w (or_default None 3) = ([], Inr 3)"
  by (simp add: findTeepod_def)

text \<open>
  Claim C1 says that a deploy call without \<open>teepodId\<close> queries the teepods and picks
  the first one that is available and online. The code replaces a missing \<open>teepodId\<close>
  by 3 before it tests \<open>!teepodId\<close>, so the lookup never runs: a call without
  \<open>teepodId\<close> is the call with \<open>teepodId = 3\<close>, it never lists the teepods, and
  the key request it makes names teepod 3.
\<close>

theorem deploy_without_teepodId_skips_lookup:
  "deploy w (options\<lparr>do_teepodId := None\<rparr>) = deploy w (options\<lparr>do_teepodId := Some 3\<rparr>)
   \<and> GetTeepods \<notin> set (fst (deploy w (options\<lparr>do_teepodId := None\<rparr>)))
   \<and> (\<forall>config. PostPubkey config \<in> set (fst (deploy w (options\<lparr>do_teepodId := None\<rparr>)))
         \<longrightarrow> vm_teepod_id config = 3)"
  by (auto simp: deploy_def findTeepod_def deploy_submit_def deploy_vm_config_def Let_def
           split: sum.splits option.splits if_splits)


theorem deploy_without_teepodId_skips_lookup_witness:
  "get_teepods demo_world
     = Inr (Some [\<lparr>teepod_id = 7, teepod_available = False, teepod_status = ''offline''\<rparr>])
   \<and> do_teepodId demo_deploy = None
   \<and> GetTeepods \<notin> set (fst (deploy demo_world demo_deploy))
   \<and> snd (deploy demo_world demo_deploy)
       = Inr \<lparr>created_app_id = ''0123abcd'', created_app_url = ''/dashboard''\<rparr>"
proof -
  have o: "demo_deploy\<lparr>do_teepodId := None\<rparr> = demo_deploy" by (simp add: demo_deploy_def)
  have r: "snd (deploy demo_world demo_deploy)
       = Inr \<lparr>created_app_id = ''0123abcd'', created_app_url = ''/dashboard''\<rparr>"
    by (simp add: deploy_def demo_world_def demo_deploy_def findTeepod_def deploy_submit_def
                  parseEnv_def entries_def Let_def)
  have g: "get_teepods demo_world
     = Inr (Some [\<lparr>teepod_id = 7, teepod_available = False, teepod_status = ''offline''\<rparr>])"
    by (simp add: demo_world_def)
  have n: "do_teepodId demo_deploy = None" by (simp add: demo_deploy_def)
  have t: "GetTeepods \<notin> set (fst (deploy demo_world demo_deploy))"
    using deploy_without_teepodId_skips_lookup[of demo_world demo_deploy] unfolding o by blast
  from g n t r show ?thesis by blast
qed

text \<open>
  Claim C10. In \<open>upgrade\<close> and in \<open>updateCompose\<close>, when the options are valid, the
  compose file is read and the fetched deployment record has a missing or empty
  \<open>encrypted_env_pubkey\<close>, then whatever the secrets are, nothing is encrypted and no
  error is raised: the calls made are the file read, the record fetch and one submission
  whose \<open>encrypted_env\<close> is empty, and the result is the result of that submission.
\<close>

theorem upgrade_without_bound_key_drops_secrets:
  "(uo_name uo \<noteq> [] \<and> uo_compose uo \<noteq> []
      \<and> readFile w (uo_compose uo) = Inr composeContent
      \<and> get_cvm w (uo_name uo) = Inr cvm
      \<and> \<not> truthy (cvm_encrypted_env_pubkey cvm)
    \<longrightarrow> (\<exists>payload.
          upgrade w uo
            = ([ReadFile (uo_compose uo), GetCvmByAppId (uo_name uo),
                PostCompose (''/api/v1/cvms/app_'' @ uo_name uo @ ''/compose'') payload],
               post_compose w (''/api/v1/cvms/app_'' @ uo_name uo @ ''/compose'') payload)
          \<and> up_encrypted_env payload = []))
   \<and> (uc_identifier uc \<noteq> [] \<and> uc_compose uc \<noteq> []
      \<and> readFile w (uc_compose uc) = Inr composeContent
      \<and> get_cvm w (replace_str (uc_identifier uc) ''app_'' []) = Inr cvm
      \<and> \<not> truthy (cvm_encrypted_env_pubkey cvm)
    \<longrightarrow> (\<exists>path payload.
          updateCompose w uc
            = ([ReadFile (uc_compose uc), GetCvmByAppId (replace_str (uc_identifier uc) ''app_'' []),
                PutCompose path payload],
               put_compose w path payload)
          \<and> ud_encrypted_env payload = []))"
proof (intro conjI impI)
  assume "uo_name uo \<noteq> [] \<and> uo_compose uo \<noteq> []
      \<and> readFile w (uo_compose uo) = Inr composeContent
      \<and> get_cvm w (uo_name uo) = Inr cvm
      \<and> \<not> truthy (cvm_encrypted_env_pubkey cvm)"
  then show "\<exists>payload.
          upgrade w uo
            = ([ReadFile (uo_compose uo), GetCvmByAppId (uo_name uo),
                PostCompose (''/api/v1/cvms/app_'' @ uo_name uo @ ''/compose'') payload],
               post_compose w (''/api/v1/cvms/app_'' @ uo_name uo @ ''/compose'') payload)
          \<and> up_encrypted_env payload = []"
    by (simp add: upgrade_def Let_def)
next
  assume "uc_identifier uc \<noteq> [] \<and> uc_compose uc \<noteq> []
      \<and> readFile w (uc_compose uc) = Inr composeContent
      \<and> get_cvm w (replace_str (uc_identifier uc) ''app_'' []) = Inr cvm
      \<and> \<not> truthy (cvm_encrypted_env_pubkey cvm)"
  then show "\<exists>path payload.
          updateCompose w uc
            = ([ReadFile (uc_compose uc), GetCvmByAppId (replace_str (uc_identifier uc) ''app_'' []),
                PutCompose path payload],
               put_compose w path payload)
          \<and> ud_encrypted_env payload = []"
    by (simp add: updateCompose_def Let_def)
qed

theorem upgrade_without_bound_key_drops_secrets_witness:
  "parseEnv (fileSystem demo_world) [''API_KEY=secret''] []
     = [\<lparr>env_key = ''API_KEY'', env_value = ''secret''\<rparr>]
   \<and> (\<exists>payload.
          upgrade demo_world demo_upgrade
            = ([ReadFile ''docker-compose.yml'', GetCvmByAppId ''0123abcd'',
                PostCompose ''/api/v1/cvms/app_0123abcd/compose'' payload],
               Inr ''accepted'')
          \<and> up_encrypted_env payload = [])
   \<and> (\<exists>path payload.
          updateCompose demo_world demo_update
            = ([ReadFile ''docker-compose.yml'', GetCvmByAppId ''0123abcd'', PutCompose path payload],
               Inr ''accepted'')
          \<and> ud_encrypted_env payload = [])"
proof -
  have p: "parseEnv (fileSystem demo_world) [''API_KEY=secret''] []
     = [\<lparr>env_key = ''API_KEY'', env_value = ''secret''\<rparr>]"
    by (simp add: parseEnv_def assignEnv_def set_property_def entries_def isArrayIndex_def
                  isDecimalDigit_def Let_def)
  have r: "replace_str (uc_identifier demo_update) ''app_'' [] = ''0123abcd''"
    by (simp add: demo_update_def)
  have h1: "uo_name demo_upgrade \<noteq> [] \<and> uo_compose demo_upgrade \<noteq> []
      \<and> readFile demo_world (uo_compose demo_upgrade) = Inr ''services: {}''
      \<and> get_cvm demo_world (uo_name demo_upgrade) = Inr (snapshot ''running'')
      \<and> \<not> truthy (cvm_encrypted_env_pubkey (snapshot ''running''))"
    by (simp add: demo_upgrade_def demo_world_def snapshot_def)
  have h2: "uc_identifier demo_update \<noteq> [] \<and> uc_compose demo_update \<noteq> []
      \<and> readFile demo_world (uc_compose demo_update) = Inr ''services: {}''
      \<and> get_cvm demo_world (replace_str (uc_identifier demo_update) ''app_'' []) = Inr (snapshot ''running'')
      \<and> \<not> truthy (cvm_encrypted_env_pubkey (snapshot ''running''))"
    by (simp add: demo_update_def demo_world_def snapshot_def)
  note t = upgrade_without_bound_key_drops_secrets[of demo_upgrade demo_world "''services: {}''"
             "snapshot ''running''" demo_update]
  from t h1 have a: "\<exists>payload.
          upgrade demo_world demo_upgrade
            = ([ReadFile (uo_compose demo_upgrade), GetCvmByAppId (uo_name demo_upgrade),
                PostCompose (''/api/v1/cvms/app_'' @ uo_name demo_upgrade @ ''/compose'') payload],
               post_compose demo_world (''/api/v1/cvms/app_'' @ uo_name demo_upgrade @ ''/compose'') payload)
          \<and> up_encrypted_env payload = []"
    by blast
  from t h2 have b: "\<exists>path payload.
          updateCompose demo_world demo_update
            = ([ReadFile (uc_compose demo_update),
                GetCvmByAppId (replace_str (uc_identifier demo_update) ''app_'' []),
                PutCompose path payload],
               put_compose demo_world path payload)
          \<and> ud_encrypted_env payload = []"
    by blast
  have a': "\<exists>payload.
          upgrade demo_world demo_upgrade
            = ([ReadFile ''docker-compose.yml'', GetCvmByAppId ''0123abcd'',
                PostCompose ''/api/v1/cvms/app_0123abcd/compose'' payload],
               Inr ''accepted'')
          \<and> up_encrypted_env payload = []"
    using a by (simp add: demo_upgrade_def demo_world_def)
  have b': "\<exists>path payload.
          updateCompose demo_world demo_update
            = ([ReadFile ''docker-compose.yml'', GetCvmByAppId ''0123abcd'', PutCompose path payload],
               Inr ''accepted'')
          \<and> ud_encrypted_env payload = []"
    using b unfolding r by (simp add: demo_update_def demo_world_def)
  from p a' b' show ?thesis by blast
qed

section \<open>The secret codec\<close>

declare toString16.simps [simp del]














lemma length_hexPairs: "length (hexPairs s) = length s div 2"
  by (induction s rule: hexPairs.induct) simp_all









lemma encryptSecrets_odd_length_key:
  assumes "getPublicKey c (randomPrivateKey c) = Inr publicKey"
    and "odd (length (if startsWith pubkey ''0x'' then drop 2 pubkey else pubkey))"
  shows "encryptSecrets c envs pubkey = Inl (EncryptSecretsFailed InvalidHexString)"
  using assms
  by (simp add: encryptSecrets_def encryptSecrets_try_def hexToUint8Array_def Let_def odd_iff_mod_2_eq_one)

lemma parseInt16_zz: "parseInt16 ''zz'' = None"
  by (simp add: parseInt16_def isWhiteSpace_def isHexDigit_def hexDigitValue_def)

lemma parseInt16_00: "parseInt16 ''00'' = Some 0"
  by (simp add: parseInt16_def isWhiteSpace_def isHexDigit_def hexDigitValue_def)

text \<open>
  Claim C2 says that a key with characters outside \<open>[0-9a-fA-F]\<close> is rejected. The
  code checks the parity of the length only: a pair that \<open>parseInt\<close> cannot read
  becomes the byte 0. A key that starts with \<open>zz\<close> is decoded, and encrypted
  under, exactly as the key that starts with \<open>00\<close>; with an even number of
  characters after \<open>zz\<close> the decoding succeeds.
\<close>

theorem hexToUint8Array_accepts_non_hex:
  "hexToUint8Array (''zz'' @ rest) = hexToUint8Array (''00'' @ rest)
   \<and> encryptSecrets c envs (''zz'' @ rest) = encryptSecrets c envs (''00'' @ rest)
   \<and> (if even (length rest) then hexToUint8Array (''zz'' @ rest) = Inr (0 # hexPairs rest)
       else hexToUint8Array (''zz'' @ rest) = Inl InvalidHexString)"
proof -
  have a: "hexToUint8Array (''zz'' @ rest) = hexToUint8Array (''00'' @ rest)"
    by (simp add: hexToUint8Array_def parseInt16_zz parseInt16_00)
  have b: "encryptSecrets c envs (''zz'' @ rest) = encryptSecrets c envs (''00'' @ rest)"
    unfolding encryptSecrets_def encryptSecrets_try_def a ..
  have c: "if even (length rest) then hexToUint8Array (''zz'' @ rest) = Inr (0 # hexPairs rest)
           else hexToUint8Array (''zz'' @ rest) = Inl InvalidHexString"
    by (cases "even (length rest)")
       (simp_all add: hexToUint8Array_def parseInt16_zz even_iff_mod_2_eq_zero odd_iff_mod_2_eq_one)
  from a b c show ?thesis by blast
qed

theorem hexToUint8Array_accepts_non_hex_witness:
  "hexToUint8Array ''zz0a'' = Inr [0, 10]"
proof -
  have p: "parseInt16 ''0a'' = Some 10"
    by (simp add: parseInt16_def isWhiteSpace_def isHexDigit_def hexDigitValue_def)
  have "if even (length ''0a'') then hexToUint8Array (''zz'' @ ''0a'') = Inr (0 # hexPairs ''0a'')
        else hexToUint8Array (''zz'' @ ''0a'') = Inl InvalidHexString"
    using hexToUint8Array_accepts_non_hex[of "''0a''"] by blast
  then show ?thesis by (simp add: p)
qed




section \<open>Parsing the secrets\<close>

lemma includes_str_char: "includes_str s [c] \<longleftrightarrow> c \<in> set s"
  by (induction s) (auto split: list.splits)

lemma split_str_nonempty: "split_str c s \<noteq> []"
  by (induction s) (auto split: list.splits)

lemma split_str_first: "nth_opt (split_str c s) 0 = Some (takeWhile (\<lambda>x. x \<noteq> c) s)"
proof (induction s)
  case Nil
  then show ?case by simp
next
  case (Cons x xs)
  then show ?case using split_str_nonempty[of c xs]
    by (cases "split_str c xs") auto
qed

lemma split_str_second:
  "nth_opt (split_str c s) (Suc 0)
     = (if c \<in> set s then Some (takeWhile (\<lambda>x. x \<noteq> c) (drop 1 (dropWhile (\<lambda>x. x \<noteq> c) s)))
        else None)"
proof (induction s)
  case Nil
  then show ?case by simp
next
  case (Cons x xs)
  show ?case
  proof (cases "x = c")
    case True
    then show ?thesis using split_str_first[of c xs] by simp
  next
    case False
    then show ?thesis using Cons split_str_nonempty[of c xs]
      by (cases "split_str c xs") auto
  qed
qed

lemma assignEnv_entry_binding:
  "assignEnv obj s = (case entry_binding s of None \<Rightarrow> obj | Some (k, v) \<Rightarrow> set_property k v obj)"
  by (simp add: assignEnv_def entry_binding_def includes_str_char split_str_first
                split_str_second[simplified] Let_def)


lemma map_of_set_property:
  "k' \<noteq> ''__proto__'' \<Longrightarrow>
   map_of (set_property k v obj) k' = (if k = k' then Some v else map_of obj k')"
  by (simp add: set_property_def update_conv')

lemma distinct_set_property:
  "distinct (map fst obj) \<Longrightarrow> distinct (map fst (set_property k v obj))"
  by (simp add: set_property_def distinct_update)

lemma map_of_assignEnv:
  "k' \<noteq> ''__proto__'' \<Longrightarrow>
   map_of (assignEnv obj s) k'
     = (case entry_binding s of
          None \<Rightarrow> map_of obj k'
        | Some kv \<Rightarrow> if fst kv = k' then Some (snd kv) else map_of obj k')"
  by (simp add: assignEnv_entry_binding map_of_set_property split: option.splits prod.splits)

lemma distinct_assignEnv:
  "distinct (map fst obj) \<Longrightarrow> distinct (map fst (assignEnv obj s))"
  by (simp add: assignEnv_entry_binding distinct_set_property split: option.splits prod.splits)

lemma distinct_foldl_assignEnv:
  "distinct (map fst obj) \<Longrightarrow> distinct (map fst (foldl assignEnv obj xs))"
  by (induction xs arbitrary: obj) (simp_all add: distinct_assignEnv)

lemma map_of_foldl_assignEnv:
  "k' \<noteq> ''__proto__'' \<Longrightarrow>
   map_of (foldl assignEnv obj xs) k'
     = (case map_of (rev (List.map_filter entry_binding xs)) k' of
          None \<Rightarrow> map_of obj k'
        | Some v \<Rightarrow> Some v)"
proof (induction xs arbitrary: obj)
  case Nil
  then show ?case by (simp add: List.map_filter_simps)
next
  case (Cons x xs)
  show ?case
  proof (cases "entry_binding x")
    case None
    then show ?thesis using Cons
      by (simp add: List.map_filter_simps map_of_assignEnv split: option.splits)
  next
    case (Some kv)
    then show ?thesis using Cons
      by (auto simp: List.map_filter_simps map_of_assignEnv map_add_def split: option.splits)
  qed
qed

lemma entries_set: "set (entries obj) = set obj"
  by (auto simp: entries_def)

lemma distinct_fst_insort_key:
  "distinct (map fst (insort_key f x xs)) \<longleftrightarrow> fst x \<notin> fst ` set xs \<and> distinct (map fst xs)"
  by (induction xs) (auto simp: set_insort_key)

lemma distinct_fst_sort_key:
  "distinct (map fst xs) \<Longrightarrow> distinct (map fst (sort_key f xs))"
  by (induction xs) (simp_all add: distinct_fst_insort_key)

lemma entries_distinct:
  assumes "distinct (map fst obj)"
  shows "distinct (map fst (entries obj))"
proof -
  let ?P = "\<lambda>kv. isArrayIndex (fst kv)"
  let ?A = "sort_key (\<lambda>kv. decimalValue (fst kv)) (filter ?P obj)"
  let ?B = "filter (\<lambda>kv. \<not> ?P kv) obj"
  have "distinct (map fst (filter ?P obj))"
    using assms by (rule distinct_map_filter)
  then have a: "distinct (map fst ?A)" by (rule distinct_fst_sort_key)
  have b: "distinct (map fst ?B)" using assms by (rule distinct_map_filter)
  have c: "set (map fst ?A) \<inter> set (map fst ?B) = {}" by auto
  from a b c show ?thesis by (simp add: entries_def)
qed

lemma map_of_entries:
  assumes "distinct (map fst obj)"
  shows "map_of (entries obj) k = map_of obj k"
proof -
  have "\<And>v. map_of (entries obj) k = Some v \<longleftrightarrow> map_of obj k = Some v"
    using assms entries_distinct[OF assms] by (simp add: entries_set)
  then show ?thesis by (metis option.exhaust)
qed

lemma parseEnv_entries:
  "parseEnv fs envs envFile
     = map (\<lambda>kv. \<lparr>env_key = fst kv, env_value = snd kv\<rparr>)
           (entries (foldl assignEnv [] (envs @ file_lines fs envFile)))"
  by (simp add: parseEnv_def file_lines_def Let_def split: option.splits)

lemma lookupEnv_parseEnv:
  "lookupEnv (parseEnv fs envs envFile) k
     = map_of (foldl assignEnv [] (envs @ file_lines fs envFile)) k"
  by (simp add: lookupEnv_def parseEnv_entries comp_def map_of_entries distinct_foldl_assignEnv)

lemma distinct_parseEnv: "distinct (map env_key (parseEnv fs envs envFile))"
  using entries_distinct[OF distinct_foldl_assignEnv[of "[]" "envs @ file_lines fs envFile"]]
  by (simp add: parseEnv_entries comp_def)


lemma entry_binding_first_two:
  assumes "K \<noteq> []" "V1 \<noteq> []" "CHR ''='' \<notin> set K" "CHR ''='' \<notin> set V1"
  shows "entry_binding (K @ ''='' @ V1 @ ''='' @ V2) = Some (K, V1)"
    and "entry_binding (K @ ''='' @ V1) = Some (K, V1)"
proof -
  have k: "\<And>x. x \<in> set K \<Longrightarrow> x \<noteq> CHR ''=''" and v: "\<And>x. x \<in> set V1 \<Longrightarrow> x \<noteq> CHR ''=''"
    using assms(3,4) by auto
  have tk: "\<And>r. takeWhile (\<lambda>c. c \<noteq> CHR ''='') (K @ CHR ''='' # r) = K"
    using k by (simp add: takeWhile_append2)
  have dk: "\<And>r. dropWhile (\<lambda>c. c \<noteq> CHR ''='') (K @ CHR ''='' # r) = CHR ''='' # r"
    using k by (simp add: dropWhile_append2)
  have tv: "takeWhile (\<lambda>c. c \<noteq> CHR ''='') (V1 @ CHR ''='' # V2) = V1"
    using v by (simp add: takeWhile_append2)
  have tv': "takeWhile (\<lambda>c. c \<noteq> CHR ''='') V1 = V1"
    using v by (simp add: takeWhile_eq_all_conv)
  show "entry_binding (K @ ''='' @ V1 @ ''='' @ V2) = Some (K, V1)"
    using assms(1,2) by (simp add: entry_binding_def tk dk tv Let_def)
  show "entry_binding (K @ ''='' @ V1) = Some (K, V1)"
    using assms(1,2) by (simp add: entry_binding_def tk dk tv' Let_def)
qed

lemma parseEnv_single:
  "parseEnv fs [s] [] =
     (case entry_binding s of
        None \<Rightarrow> []
      | Some kv \<Rightarrow> if fst kv = ''__proto__'' then []
                   else [\<lparr>env_key = fst kv, env_value = snd kv\<rparr>])"
  by (simp add: parseEnv_def assignEnv_entry_binding set_property_def entries_def
           split: option.splits prod.splits)

text \<open>
  The keys other than \<open>__proto__\<close>. For every such key, the value that the result
  of \<open>parseEnv\<close> gives to the key is that of the last entry binding it, among the
  entries of the array followed by the lines of the file, where the key of an entry is
  the text before the first \<open>=\<close> and its value the text between the first and the
  second \<open>=\<close>, and an entry without \<open>=\<close>, with an empty key or with an empty
  value binds nothing. Every key occurs once in the result. So a binding in the file wins
  over the array; an entry \<open>K=V1=V2\<close> alone gives \<open>{key: K, value: V1}\<close>; and an
  entry that binds nothing gives no secret.
\<close>

theorem parseEnv_bindings:
  assumes "k \<noteq> ''__proto__''"
  shows "lookupEnv (parseEnv fs envs envFile) k
           = map_of (rev (List.map_filter entry_binding (envs @ file_lines fs envFile))) k
       \<and> distinct (map env_key (parseEnv fs envs envFile))
       \<and> (\<forall>v. map_of (rev (List.map_filter entry_binding (file_lines fs envFile))) k = Some v
              \<longrightarrow> lookupEnv (parseEnv fs envs envFile) k = Some v)
       \<and> (\<forall>V1 V2. k \<noteq> [] \<and> V1 \<noteq> [] \<and> CHR ''='' \<notin> set k \<and> CHR ''='' \<notin> set V1
              \<longrightarrow> parseEnv fs [k @ ''='' @ V1 @ ''='' @ V2] [] = [\<lparr>env_key = k, env_value = V1\<rparr>]
                \<and> parseEnv fs [k @ ''='' @ V1] [] = [\<lparr>env_key = k, env_value = V1\<rparr>])
       \<and> (\<forall>s. CHR ''='' \<notin> set s
                \<or> takeWhile (\<lambda>c. c \<noteq> CHR ''='') s = []
                \<or> takeWhile (\<lambda>c. c \<noteq> CHR ''='') (drop 1 (dropWhile (\<lambda>c. c \<noteq> CHR ''='') s)) = []
              \<longrightarrow> parseEnv fs [s] [] = [])"
proof (intro conjI allI impI)
  show main: "lookupEnv (parseEnv fs envs envFile) k
           = map_of (rev (List.map_filter entry_binding (envs @ file_lines fs envFile))) k"
    using assms
    by (simp add: lookupEnv_parseEnv map_of_foldl_assignEnv split: option.splits del: foldl_append)
  show "distinct (map env_key (parseEnv fs envs envFile))" by (rule distinct_parseEnv)
  fix v
  assume "map_of (rev (List.map_filter entry_binding (file_lines fs envFile))) k = Some v"
  then show "lookupEnv (parseEnv fs envs envFile) k = Some v"
    unfolding main by (simp add: List.map_filter_def map_add_def)
next
  fix V1 V2
  assume a: "k \<noteq> [] \<and> V1 \<noteq> [] \<and> CHR ''='' \<notin> set k \<and> CHR ''='' \<notin> set V1"
  then have "entry_binding (k @ ''='' @ V1 @ ''='' @ V2) = Some (k, V1)"
    and "entry_binding (k @ ''='' @ V1) = Some (k, V1)"
    using entry_binding_first_two by blast+
  then show "parseEnv fs [k @ ''='' @ V1 @ ''='' @ V2] [] = [\<lparr>env_key = k, env_value = V1\<rparr>]"
    and "parseEnv fs [k @ ''='' @ V1] [] = [\<lparr>env_key = k, env_value = V1\<rparr>]"
    using assms by (simp_all only: parseEnv_single option.case fst_conv snd_conv if_False)
next
  fix s
  assume "CHR ''='' \<notin> set s
          \<or> takeWhile (\<lambda>c. c \<noteq> CHR ''='') s = []
          \<or> takeWhile (\<lambda>c. c \<noteq> CHR ''='') (drop 1 (dropWhile (\<lambda>c. c \<noteq> CHR ''='') s)) = []"
  then have "entry_binding s = None" by (auto simp: entry_binding_def Let_def)
  then show "parseEnv fs [s] [] = []" by (simp add: parseEnv_single)
qed

theorem parseEnv_bindings_witness:
  "lookupEnv (parseEnv demo_files [''A=arr'', ''K=V1=V2''] ''.env'') ''A'' = Some ''file''
   \<and> parseEnv demo_files [''A=V1=V2''] [] = [\<lparr>env_key = ''A'', env_value = ''V1''\<rparr>]
   \<and> parseEnv demo_files [''novalue''] [] = []"
proof -
  have k: "''A'' \<noteq> ''__proto__''" by simp
  note t = parseEnv_bindings[OF k, of demo_files "[''A=arr'', ''K=V1=V2'']" "''.env''"]
  have f: "map_of (rev (List.map_filter entry_binding (file_lines demo_files ''.env''))) ''A''
             = Some ''file''"
    by (simp add: file_lines_def demo_files_def List.map_filter_def entry_binding_def)
  from t f have a: "lookupEnv (parseEnv demo_files [''A=arr'', ''K=V1=V2''] ''.env'') ''A'' = Some ''file''"
    by blast
  have h: "''A'' \<noteq> [] \<and> ''V1'' \<noteq> [] \<and> CHR ''='' \<notin> set ''A'' \<and> CHR ''='' \<notin> set ''V1''" by simp
  from t h have "parseEnv demo_files [''A'' @ ''='' @ ''V1'' @ ''='' @ ''V2''] []
                   = [\<lparr>env_key = ''A'', env_value = ''V1''\<rparr>]"
    by blast
  then have b: "parseEnv demo_files [''A=V1=V2''] [] = [\<lparr>env_key = ''A'', env_value = ''V1''\<rparr>]"
    by simp
  have "CHR ''='' \<notin> set ''novalue''" by simp
  with t have c: "parseEnv demo_files [''novalue''] [] = []" by blast
  from a b c show ?thesis by blast
qed

lemma map_of_foldl_assignEnv_proto:
  "map_of (foldl assignEnv obj xs) ''__proto__'' = map_of obj ''__proto__''"
proof (induction xs arbitrary: obj)
  case Nil
  then show ?case by simp
next
  case (Cons x xs)
  have "map_of (assignEnv obj x) ''__proto__'' = map_of obj ''__proto__''"
    by (auto simp: assignEnv_entry_binding set_property_def update_conv'
             split: option.splits prod.splits)
  with Cons show ?case by simp
qed

text \<open>
  Claim C9 says that an entry \<open>K=V1=V2\<close> keeps \<open>V1\<close> as the value of \<open>K\<close>, and
  that the value of the file wins for a key given twice. The code stores each pair with
  \<open>envVars[key] = value\<close> in a plain object, and for the key \<open>__proto__\<close> this
  assignment stores nothing: whatever the array and the file hold, the result gives no
  value to \<open>__proto__\<close>; the entry \<open>__proto__=V1=V2\<close> alone gives no secret,
  where the entry \<open>constructor=V1=V2\<close> gives \<open>{key: constructor, value: V1}\<close>.
\<close>

theorem parseEnv_loses_proto_key:
  "lookupEnv (parseEnv fs envs envFile) ''__proto__'' = None
   \<and> parseEnv fs [''__proto__=V1=V2''] [] = []
   \<and> parseEnv fs [''constructor=V1=V2''] []
       = [\<lparr>env_key = ''constructor'', env_value = ''V1''\<rparr>]"
proof -
  have a: "lookupEnv (parseEnv fs envs envFile) ''__proto__'' = None"
    by (simp add: lookupEnv_parseEnv map_of_foldl_assignEnv_proto del: foldl_append)
  have b: "parseEnv fs [''__proto__=V1=V2''] [] = []"
    by (simp add: parseEnv_single entry_binding_def)
  have c: "parseEnv fs [''constructor=V1=V2''] []
       = [\<lparr>env_key = ''constructor'', env_value = ''V1''\<rparr>]"
    by (simp add: parseEnv_single entry_binding_def)
  from a b c show ?thesis by blast
qed

theorem parseEnv_loses_proto_key_witness:
  "lookupEnv (parseEnv demo_files [''__proto__=V1=V2'', ''A=arr''] ''.env'') ''__proto__'' = None
   \<and> lookupEnv (parseEnv demo_files [''__proto__=V1=V2'', ''A=arr''] ''.env'') ''A'' = Some ''file''
   \<and> parseEnv noFiles [''__proto__=V1=V2''] [] = []"
proof -
  have a: "lookupEnv (parseEnv demo_files [''__proto__=V1=V2'', ''A=arr''] ''.env'') ''__proto__'' = None"
    using parseEnv_loses_proto_key[of demo_files "[''__proto__=V1=V2'', ''A=arr'']" "''.env''"]
    by blast
  have c: "parseEnv noFiles [''__proto__=V1=V2''] [] = []"
    using parseEnv_loses_proto_key[of noFiles] by blast
  have k: "''A'' \<noteq> ''__proto__''" by simp
  have f: "map_of (rev (List.map_filter entry_binding (file_lines demo_files ''.env''))) ''A''
             = Some ''file''"
    by (simp add: file_lines_def demo_files_def List.map_filter_def entry_binding_def)
  from parseEnv_bindings[OF k, of demo_files "[''__proto__=V1=V2'', ''A=arr'']" "''.env''"] f
  have b: "lookupEnv (parseEnv demo_files [''__proto__=V1=V2'', ''A=arr''] ''.env'') ''A'' = Some ''file''"
    by blast
  from a b c show ?thesis by blast
qed

end
